theory Spec2Isabelle
  imports Complex_Main
begin

section \<open>Data model of the Cloud Functions triggers\<close>

text \<open>
  The three Firestore triggers on \<open>healthcare_providers/{providerId}/requests/{requestId}\<close>
  (\<open>onBloodRequestCreated\<close>, \<open>onMatchedDonorAdded\<close>, \<open>onBloodRequestDeleted\<close>) are embedded
  as pure functions. Everything the handlers obtain from outside (Firestore reads, the
  geofire library, the HTTP call to the agent, \<open>JSON.parse\<close>, the clock, the string
  built-ins) is a field of the record \<open>world\<close>; everything they do to the outside
  (multicast sends, document writes) is an element of the returned \<open>effect\<close> list, in the
  order the calls are issued.

  A string-valued document field is a \<open>string\<close>; the empty string stands for every falsy
  value of the field (absent, \<open>null\<close>, \<open>""\<close>), which the handlers never tell apart:
  they read such fields only through \<open>if (x)\<close>, \<open>!x\<close> and \<open>x || default\<close>.
\<close>

datatype error = StoreUnavailable | GatewayUnavailable | ReferenceError string | TypeError string

text \<open>JavaScript values as far as the handlers inspect them (array elements, parsed JSON).\<close>

datatype json = JNull | JBool bool | JNum int | JStr string | JArr "json list" | JObj "(string \<times> json) list"

type_synonym geopoint = "real \<times> real"

text \<open>A document of the \<open>donors\<close> collection; \<open>geo\<close> is \<open>donor.geo.geopoint\<close>, \<open>None\<close> when
  \<open>!donor.geo || !donor.geo.geopoint\<close>.\<close>

record donor =
  bloodGroup :: string
  geo :: "geopoint option"
  uid :: string
  isAvailable :: bool

text \<open>An entry of \<open>matchingDonors\<close>: \<open>{...donor, fcmToken: userData.fcmToken, uid: donorUid}\<close>.\<close>

record matched = donor +
  donor_fcmToken :: string

text \<open>A document of the \<open>users\<close> collection.\<close>

record user =
  fcmToken :: string
  firstName :: string
  lastName :: string
  daytimeAddress :: string
  nighttimeAddress :: string

text \<open>A document of \<open>healthcare_providers\<close>; \<open>provider_geo\<close> is \<open>providerData.geo.geopoint\<close>.\<close>

record provider =
  provider_geo :: "geopoint option"
  provider_name :: string
  organizationName :: string
  organisationName :: string

text \<open>A request document. \<open>req_bloodGroup\<close> is the array \<open>bloodGroup\<close> (empty when the
  field is absent); \<open>matchedDonors\<close> and \<open>foundDonors\<close> are \<open>None\<close> when the field is
  not an array; \<open>unitsRequested\<close> is a number, not rounded anywhere, \<open>None\<close> when the field is
  absent.\<close>

record request =
  req_bloodGroup :: "json list"
  unitsRequested :: "real option"
  requestedBy :: string
  title :: string
  matchedDonors :: "string list option"
  foundDonors :: "string list option"

text \<open>\<open>x || d\<close> on a string-valued field.\<close>

definition or_default :: "string \<Rightarrow> string \<Rightarrow> string" where
  "or_default x d = (if x = [] then d else x)"

subsection \<open>Effects\<close>

datatype notification =
    NEW_MATCH "json list" nat
  | NO_DONORS_FOUND string
  | DONOR_MATCHED string string
  | REQUEST_CANCELLED

text \<open>
  \<open>SendEachForMulticast tokens requestId n\<close> is one call of
  \<open>admin.messaging().sendEachForMulticast\<close>. \<open>NEW_MATCH groups radius\<close> is the message titled
  "Urgent: Blood Donors Needed", \<open>NO_DONORS_FOUND title\<close> the one to the requester,
  \<open>DONOR_MATCHED donorId body\<close> the one titled "A suitable donor has confirmed
  availability." and \<open>REQUEST_CANCELLED\<close> the one titled "Request Cancelled".
  \<open>UserMessageAdd u\<close> is \<open>users/u/messages.add\<close>, \<open>DonorMessageAdd u\<close> is
  \<open>donors/u/messages.add\<close>, \<open>RequestUpdate ids\<close> is \<open>requestRef.update({foundDonors: ids})\<close>
  and \<open>MatchSet donorUid requestId status providerName\<close> is
  \<open>users/donorUid/matches/requestId.set({status, providerName, createdAt})\<close>.
\<close>

datatype effect =
    SendEachForMulticast "string list" string notification
  | UserMessageAdd string
  | DonorMessageAdd string
  | RequestUpdate "string list"
  | MatchSet string string string string

subsection \<open>The JavaScript \<open>Map\<close> and \<open>Set\<close>, in insertion order\<close>

fun Map_has :: "('k \<times> 'v) list \<Rightarrow> 'k \<Rightarrow> bool" where
  "Map_has [] k = False"
| "Map_has ((k', v') # m) k = (k' = k \<or> Map_has m k)"

fun Map_set :: "('k \<times> 'v) list \<Rightarrow> 'k \<Rightarrow> 'v \<Rightarrow> ('k \<times> 'v) list" where
  "Map_set [] k v = [(k, v)]"
| "Map_set ((k', v') # m) k v = (if k' = k then (k, v) # m else (k', v') # Map_set m k v)"

definition Set_add :: "'a list \<Rightarrow> 'a \<Rightarrow> 'a list" where
  "Set_add xs x = (if x \<in> set xs then xs else xs @ [x])"

subsection \<open>The outside world\<close>

datatype axios_result = AxiosRejected | AxiosResponse nat string

record chat_request =
  user_id :: string
  session_id :: string
  message :: string
  donor_ids :: "string list"
  ctx_requestId :: string
  ctx_providerId :: string
  bloodGroups :: "json list"
  unitsNeeded :: real

record world =
  distanceBetween :: "geopoint \<Rightarrow> geopoint \<Rightarrow> real"
  donorsInBounds :: "geopoint \<Rightarrow> nat \<Rightarrow> (string \<times> donor) list list option"
  usersDoc :: "string \<Rightarrow> user option option"
  providersDoc :: "string \<Rightarrow> provider option option"
  str_trim :: "string \<Rightarrow> string"
  str_toUpperCase :: "string \<Rightarrow> string"
  axios_post :: "chat_request \<Rightarrow> axios_result"
  JSON_parse :: "string \<Rightarrow> json option"
  getHours :: "nat \<Rightarrow> nat"
  resolves :: "effect \<Rightarrow> bool"

text \<open>
  One value of \<open>world\<close> is what one invocation of a handler meets: the documents do not
  change under it while it runs.
  \<open>distanceBetween\<close> is \<open>geofire.distanceBetween\<close> (kilometres); the coordinates of a
  Firestore geopoint are finite numbers, so the distance is a real number and
  \<open>distance <= currentRadiusKm\<close> is the order of the reals.
  \<open>donorsInBounds w center r\<close> is the list of snapshots that the range queries over
  \<open>geofire.geohashQueryBounds(center, r * 1000)\<close> return, each snapshot a list of
  (document id, data); \<open>None\<close> when one of the queries rejects.
  \<open>usersDoc w u\<close> is \<open>users/u\<close> and \<open>providersDoc w p\<close> is \<open>healthcare_providers/p\<close>:
  \<open>None\<close> when the read rejects, \<open>Some None\<close> when the document does not exist.
  \<open>str_trim\<close> and \<open>str_toUpperCase\<close> are \<open>String.prototype.trim\<close> and \<open>toUpperCase\<close>.
  \<open>axios_post\<close> is the call to the agent's \<open>/chat\<close> endpoint: \<open>AxiosRejected\<close> when the
  promise rejects (network error, timeout, a status outside 2xx) or the response carries no
  \<open>data\<close>, else \<open>AxiosResponse status reply\<close> with \<open>reply\<close> = \<open>filterResponse.data.reply\<close>.
  \<open>JSON_parse\<close> is \<open>JSON.parse\<close>, \<open>None\<close> when it throws.
  \<open>getHours w i\<close> is \<open>new Date().getHours()\<close> at the \<open>i\<close>-th new donor of the confirmation
  loop. \<open>resolves w e\<close> tells whether the promise of the call \<open>e\<close> resolves.
\<close>

definition rejection :: "effect \<Rightarrow> error" where
  "rejection e = (case e of SendEachForMulticast _ _ _ \<Rightarrow> GatewayUnavailable | _ \<Rightarrow> StoreUnavailable)"

text \<open>\<open>await e; k\<close>: the call is issued; what follows runs only when its promise resolves.\<close>

definition await :: "world \<Rightarrow> effect \<Rightarrow> effect list \<times> error option \<Rightarrow> effect list \<times> error option" where
  "await w e k = (if resolves w e then (e # fst k, snd k) else ([e], Some (rejection e)))"

section \<open>findMatchingDonors\<close>

definition maxRadiusKm :: nat where
  "maxRadiusKm = 50"

definition stepKm :: nat where
  "stepKm = 2"

record search_state =
  matchingDonors :: "(string \<times> matched) list"
  currentRadiusKm :: nat
  expandedToMax :: bool

definition standardize :: "world \<Rightarrow> json list \<Rightarrow> json list" where
  "standardize w requestedGroups =
     map (\<lambda>bg. case bg of JStr s \<Rightarrow> JStr (str_toUpperCase w (str_trim w s)) | _ \<Rightarrow> bg) requestedGroups"

definition donorBloodGroup :: "world \<Rightarrow> 'a donor_scheme \<Rightarrow> string" where
  "donorBloodGroup w d = str_toUpperCase w (str_trim w (or_default (bloodGroup d) []))"

definition matched_of :: "donor \<Rightarrow> user \<Rightarrow> matched" where
  "matched_of d userData =
     \<lparr>bloodGroup = bloodGroup d, geo = geo d, uid = uid d,
      isAvailable = isAvailable d, donor_fcmToken = fcmToken userData\<rparr>"

text \<open>The inner loop \<open>for (const doc of snap.docs)\<close>; \<open>Inr\<close> at a \<open>break\<close> or at the end.\<close>

fun scan_docs :: "world \<Rightarrow> geopoint \<Rightarrow> json list \<Rightarrow> real \<Rightarrow> nat \<Rightarrow>
    (string \<times> donor) list \<Rightarrow> (string \<times> matched) list \<Rightarrow> error + (string \<times> matched) list" where
  "scan_docs w center std target r [] m = Inr m"
| "scan_docs w center std target r ((docId, d) # docs) m =
     (if Map_has m docId then scan_docs w center std target r docs m
      else (case geo d of
        None \<Rightarrow> scan_docs w center std target r docs m
      | Some gp \<Rightarrow>
          if uid d = [] then scan_docs w center std target r docs m
          else (case usersDoc w (uid d) of
            None \<Rightarrow> Inl StoreUnavailable
          | Some None \<Rightarrow> scan_docs w center std target r docs m
          | Some (Some userData) \<Rightarrow>
              if distanceBetween w gp center \<le> real r
                 \<and> JStr (donorBloodGroup w d) \<in> set std
                 \<and> isAvailable d
                 \<and> fcmToken userData \<noteq> []
              then
                (if target \<le> real (length (Map_set m docId (matched_of d userData)))
                 then Inr (Map_set m docId (matched_of d userData))
                 else scan_docs w center std target r docs (Map_set m docId (matched_of d userData)))
              else scan_docs w center std target r docs m)))"

text \<open>The outer loop \<open>for (const snap of snapshots)\<close>.\<close>

fun scan_snapshots :: "world \<Rightarrow> geopoint \<Rightarrow> json list \<Rightarrow> real \<Rightarrow> nat \<Rightarrow>
    (string \<times> donor) list list \<Rightarrow> (string \<times> matched) list \<Rightarrow> error + (string \<times> matched) list" where
  "scan_snapshots w center std target r [] m = Inr m"
| "scan_snapshots w center std target r (snap # snaps) m =
     (case scan_docs w center std target r snap m of
        Inl e \<Rightarrow> Inl e
      | Inr m' \<Rightarrow> if target \<le> real (length m') then Inr m'
                  else scan_snapshots w center std target r snaps m')"

text \<open>One iteration of the \<open>while\<close> loop.\<close>

definition search_pass :: "world \<Rightarrow> geopoint \<Rightarrow> json list \<Rightarrow> real \<Rightarrow> search_state \<Rightarrow>
    error + search_state" where
  "search_pass w center std target s =
     (case donorsInBounds w center (currentRadiusKm s) of
        None \<Rightarrow> Inl StoreUnavailable
      | Some snapshots \<Rightarrow>
         (case scan_snapshots w center std target (currentRadiusKm s) snapshots (matchingDonors s) of
            Inl e \<Rightarrow> Inl e
          | Inr m \<Rightarrow>
              if real (length m) < target
              then Inr \<lparr>matchingDonors = m,
                        currentRadiusKm = currentRadiusKm s + stepKm,
                        expandedToMax = (if currentRadiusKm s + stepKm > maxRadiusKm then True
                                         else expandedToMax s)\<rparr>
              else Inr \<lparr>matchingDonors = m,
                        currentRadiusKm = currentRadiusKm s,
                        expandedToMax = expandedToMax s\<rparr>))"

definition loop_cond :: "real \<Rightarrow> search_state \<Rightarrow> bool" where
  "loop_cond target s \<longleftrightarrow>
     currentRadiusKm s \<le> maxRadiusKm \<and> real (length (matchingDonors s)) < target"

function search_loop :: "world \<Rightarrow> geopoint \<Rightarrow> json list \<Rightarrow> real \<Rightarrow> search_state \<Rightarrow>
    error + search_state" where
  "search_loop w center std target s =
     (if loop_cond target s
      then case search_pass w center std target s of
             Inl e \<Rightarrow> Inl e
           | Inr s' \<Rightarrow> search_loop w center std target s'
      else Inr s)"
  by pat_completeness auto
termination
  by (relation "measure (\<lambda>(w, center, std, target, s).
        if real (length (matchingDonors s)) < target then 53 - currentRadiusKm s else 0)")
     (auto simp: search_pass_def loop_cond_def maxRadiusKm_def stepKm_def
           split: option.splits sum.splits if_splits)

definition init_state :: search_state where
  "init_state = \<lparr>matchingDonors = [], currentRadiusKm = 2, expandedToMax = False\<rparr>"

definition findMatchingDonors :: "world \<Rightarrow> geopoint \<Rightarrow> json list \<Rightarrow> real \<Rightarrow> error + search_state" where
  "findMatchingDonors w center requestedGroups targetDonorCount =
     search_loop w center (standardize w requestedGroups) targetDonorCount init_state"

text \<open>
  The run of the loop: for each iteration begun, the radius it examines and what the
  iteration leaves (the state after it, or the error that ends the search).
\<close>

function search_trace :: "world \<Rightarrow> geopoint \<Rightarrow> json list \<Rightarrow> real \<Rightarrow> search_state \<Rightarrow>
    (nat \<times> (error + search_state)) list" where
  "search_trace w center std target s =
     (if loop_cond target s
      then case search_pass w center std target s of
             Inl e \<Rightarrow> [(currentRadiusKm s, Inl e)]
           | Inr s' \<Rightarrow> (currentRadiusKm s, Inr s') # search_trace w center std target s'
      else [])"
  by pat_completeness auto
termination
  by (relation "measure (\<lambda>(w, center, std, target, s).
        if real (length (matchingDonors s)) < target then 53 - currentRadiusKm s else 0)")
     (auto simp: search_pass_def loop_cond_def maxRadiusKm_def stepKm_def
           split: option.splits sum.splits if_splits)

section \<open>onBloodRequestCreated\<close>

definition unitsNeeded_of :: "request \<Rightarrow> real" where
  "unitsNeeded_of requestData =
     (case unitsRequested requestData of None \<Rightarrow> 1 | Some n \<Rightarrow> if n = 0 then 1 else n)"

definition targetDonorCount :: "real \<Rightarrow> real" where
  "targetDonorCount units = min (max units 3) 5"

text \<open>\<open>sendNoDonorNotification\<close>; its \<open>try/catch\<close> swallows every failure.\<close>

definition sendNoDonorNotification :: "world \<Rightarrow> request \<Rightarrow> string \<Rightarrow> effect list" where
  "sendNoDonorNotification w requestData requestId =
     (if requestedBy requestData \<noteq> [] then
        (case usersDoc w (requestedBy requestData) of
           None \<Rightarrow> []
         | Some None \<Rightarrow> []
         | Some (Some userData) \<Rightarrow>
             if fcmToken userData \<noteq> []
             then [SendEachForMulticast [fcmToken userData] requestId
                     (NO_DONORS_FOUND (or_default (title requestData) ''Blood Request''))]
             else [])
      else [])"

subsection \<open>Step 3: the agent's filter\<close>

text \<open>The loop \<open>for (const donor of matchingDonors.values())\<close> that fills the new map.\<close>

fun refill :: "json list \<Rightarrow> (string \<times> matched) list \<Rightarrow> (string \<times> matched) list \<Rightarrow>
    (string \<times> matched) list" where
  "refill filteredDonorIds [] acc = acc"
| "refill filteredDonorIds ((docId, donor) # rest) acc =
     refill filteredDonorIds rest
       (if JStr (uid donor) \<in> set filteredDonorIds then Map_set acc (uid donor) donor else acc)"

definition adk_filter :: "world \<Rightarrow> request \<Rightarrow> string \<Rightarrow> string \<Rightarrow>
    (string \<times> matched) list \<Rightarrow> (string \<times> matched) list" where
  "adk_filter w requestData providerId requestId matching =
     (case axios_post w
             \<lparr>user_id = requestedBy requestData, session_id = requestedBy requestData,
              message = ''Filter donors for blood request'',
              donor_ids = map (\<lambda>(docId, d). uid d) matching,
              ctx_requestId = requestId, ctx_providerId = providerId,
              bloodGroups = req_bloodGroup requestData,
              unitsNeeded = unitsNeeded_of requestData\<rparr> of
        AxiosRejected \<Rightarrow> matching
      | AxiosResponse status reply \<Rightarrow>
          if status = 200 \<and> reply \<noteq> [] then
            (case (case JSON_parse w reply of
                     None \<Rightarrow> JArr (map (\<lambda>(docId, d). JStr (uid d)) matching)
                   | Some v \<Rightarrow> v) of
               JArr filteredDonorIds \<Rightarrow> refill filteredDonorIds matching []
             | _ \<Rightarrow> matching)
          else matching)"

subsection \<open>Step 4: the identifiers that the \<open>messageContent\<close> literal reads\<close>

text \<open>
  The names bound where \<open>messageContent\<close> is built: the module's imports and top-level
  declarations, the handler's parameter, and the declarations of the handler body and of
  its \<open>try\<close> block up to that statement (\<open>donorIds\<close>, \<open>sessionId\<close>, \<open>filterResponse\<close>
  and \<open>filteredDonorIds\<close> belong to the inner \<open>try\<close> blocks of step 3 and are out of
  scope again). The globals of the runtime (\<open>JSON\<close>, \<open>Array\<close>, \<open>Math\<close>, ...) are left
  out: the literal reads none of them.
\<close>

definition created_scope :: "string list" where
  "created_scope =
     [''onCall'', ''HttpsError'', ''onDocumentCreated'', ''onDocumentUpdated'',
      ''onDocumentWritten'', ''defineSecret'', ''logger'', ''axios'', ''admin'', ''geofire'',
      ''nodemailer'', ''googlePlacesApiKey'', ''sendAdminNotification'',
      ''googlePlacesAutocomplete'', ''getPlaceDetails'', ''deleteUser'',
      ''onBloodRequestCreated'', ''onMatchedDonorAdded'', ''onBloodRequestDeleted'',
      ''onProviderVerificationCreated'',
      ''event'', ''requestData'', ''providerId'', ''requestId'',
      ''findMatchingDonors'', ''sendNoDonorNotification'', ''writeMessagesToDonors'',
      ''sendDonorNotification'', ''updateRequestWithFoundDonors'',
      ''providerRef'', ''providerDoc'', ''providerData'', ''providerLoc'', ''center'',
      ''requestedGroups'', ''unitsNeeded'', ''targetDonorCount'',
      ''matchingDonors'', ''expandedToMax'', ''currentRadiusKm'',
      ''filteredMatchingDonors'', ''requestRef'']"

text \<open>
  The identifiers that the literal reads, in the order its properties are evaluated:
  \<open>after.bloodGroup\<close>, \<open>after.component\<close>, \<open>after.createdAt\<close>, \<open>after.quantity\<close>,
  \<open>after.title\<close>, \<open>after.urgency\<close>, \<open>providerName\<close>, \<open>providerData.address\<close>, \<open>donorUid\<close>,
  \<open>donorDataMsg.firstName\<close>, \<open>requestId\<close>, \<open>event.data.after.ref\<close>, \<open>providerDocSnap.ref\<close>,
  \<open>after.organisationName\<close>, \<open>providerName\<close>, \<open>...providerData\<close>, \<open>event.data.after.ref\<close>,
  \<open>providerDocSnap.ref\<close>.
\<close>

definition messageContent_reads :: "string list" where
  "messageContent_reads =
     [''after'', ''after'', ''after'', ''after'', ''after'', ''after'',
      ''providerName'', ''providerData'', ''donorUid'', ''donorDataMsg'', ''requestId'',
      ''event'', ''providerDocSnap'', ''after'', ''providerName'',
      ''providerData'', ''event'', ''providerDocSnap'']"

text \<open>Reading an identifier that no enclosing scope binds throws a \<open>ReferenceError\<close>.\<close>

fun read_all :: "string list \<Rightarrow> string list \<Rightarrow> error option" where
  "read_all scope [] = None"
| "read_all scope (x # xs) =
     (if x \<in> set scope then read_all scope xs else Some (ReferenceError x))"

subsection \<open>Step 5: the three operations under \<open>Promise.all\<close>\<close>

definition writeMessagesToDonors :: "(string \<times> matched) list \<Rightarrow> effect list" where
  "writeMessagesToDonors donors =
     map UserMessageAdd
       (foldl (\<lambda>uniqueUids (k, donor). if uid donor \<noteq> [] then Set_add uniqueUids (uid donor)
                                        else uniqueUids) [] donors)"

definition sendDonorNotification :: "(string \<times> matched) list \<Rightarrow> string \<Rightarrow> notification \<Rightarrow>
    effect list" where
  "sendDonorNotification donors requestId n =
     (if length donors > 0
      then [SendEachForMulticast (map (\<lambda>(k, d). donor_fcmToken d) donors) requestId n]
      else [])"

definition updateRequestWithFoundDonors :: "string list \<Rightarrow> effect list" where
  "updateRequestWithFoundDonors donorIds = [RequestUpdate donorIds]"

definition first_rejection :: "world \<Rightarrow> effect list \<Rightarrow> error option" where
  "first_rejection w es =
     (case filter (\<lambda>e. \<not> resolves w e) es of [] \<Rightarrow> None | e # _ \<Rightarrow> Some (rejection e))"

text \<open>
  \<open>Promise.all\<close> issues the three operations together; when one of them rejects, the
  \<open>catch\<close> of the handler logs it.
\<close>

definition step5_ops :: "request \<Rightarrow> string \<Rightarrow> nat \<Rightarrow> (string \<times> matched) list \<Rightarrow> effect list" where
  "step5_ops requestData requestId radius filteredMatchingDonors =
     writeMessagesToDonors filteredMatchingDonors
     @ sendDonorNotification filteredMatchingDonors requestId
         (NEW_MATCH (req_bloodGroup requestData) radius)
     @ updateRequestWithFoundDonors (map fst filteredMatchingDonors)"

text \<open>
  What the handler does with the map that the filter leaves: the notice to the requester
  when it is empty, else steps 4 and 5.
\<close>

definition notify_and_record :: "world \<Rightarrow> request \<Rightarrow> string \<Rightarrow> nat \<Rightarrow>
    (string \<times> matched) list \<Rightarrow> effect list \<times> error option" where
  "notify_and_record w requestData requestId radius filteredMatchingDonors =
     (if length filteredMatchingDonors = 0
      then (sendNoDonorNotification w requestData requestId, None)
      else (case read_all created_scope messageContent_reads of
              Some e \<Rightarrow> ([], Some e)
            | None \<Rightarrow>
                (step5_ops requestData requestId radius filteredMatchingDonors,
                 first_rejection w
                   (step5_ops requestData requestId radius filteredMatchingDonors))))"

text \<open>
  The handler. The second component is the error that the outer \<open>catch\<close> logs, if any;
  the handler itself always returns \<open>null\<close>.
\<close>

definition onBloodRequestCreated :: "world \<Rightarrow> request \<Rightarrow> string \<Rightarrow> string \<Rightarrow>
    effect list \<times> error option" where
  "onBloodRequestCreated w requestData providerId requestId =
     (case providersDoc w providerId of
        None \<Rightarrow> ([], Some StoreUnavailable)
      | Some None \<Rightarrow> ([], None)
      | Some (Some providerData) \<Rightarrow>
         (case provider_geo providerData of
            None \<Rightarrow> ([], Some (TypeError ''providerLoc.geopoint''))
          | Some center \<Rightarrow>
             (case findMatchingDonors w center (req_bloodGroup requestData)
                     (targetDonorCount (unitsNeeded_of requestData)) of
                Inl e \<Rightarrow> ([], Some e)
              | Inr found \<Rightarrow>
                  if length (matchingDonors found) = 0 then
                    (if expandedToMax found \<or> currentRadiusKm found > 50
                     then (sendNoDonorNotification w requestData requestId, None)
                     else ([], None))
                  else notify_and_record w requestData requestId (currentRadiusKm found)
                         (adk_filter w requestData providerId requestId
                            (matchingDonors found)))))"

section \<open>onMatchedDonorAdded\<close>

definition donor_matched_body :: "string \<Rightarrow> string \<Rightarrow> string" where
  "donor_matched_body donorName area =
     ''Name: '' @ donorName @ [CHR 0x0A] @ ''Area: '' @ or_default area ''Unknown''
       @ [CHR 0x0A] @ ''Kindly prepare for donation.''"

text \<open>The loop \<open>for (const donorUid of newDonors)\<close>; \<open>i\<close> counts the iterations.\<close>

fun confirm_each :: "world \<Rightarrow> string \<Rightarrow> string \<Rightarrow> string \<Rightarrow> nat \<Rightarrow> string list \<Rightarrow>
    effect list \<times> error option" where
  "confirm_each w requestId requesterToken providerName i [] = ([], None)"
| "confirm_each w requestId requesterToken providerName i (donorUid # rest) =
     (case usersDoc w donorUid of
        None \<Rightarrow> ([], Some StoreUnavailable)
      | Some None \<Rightarrow> confirm_each w requestId requesterToken providerName (Suc i) rest
      | Some (Some donorData) \<Rightarrow>
          await w (SendEachForMulticast [requesterToken] requestId
                     (DONOR_MATCHED donorUid
                        (donor_matched_body
                           (str_trim w (firstName donorData @ '' '' @ lastName donorData))
                           (if 6 \<le> getHours w i \<and> getHours w i < 18
                            then daytimeAddress donorData else nighttimeAddress donorData))))
         (await w (MatchSet donorUid requestId ''matched'' providerName)
         (await w (DonorMessageAdd donorUid)
            (confirm_each w requestId requesterToken providerName (Suc i) rest))))"

definition newDonors :: "string list \<Rightarrow> string list \<Rightarrow> string list" where
  "newDonors before_matched after_matched =
     filter (\<lambda>u. u \<notin> set before_matched) after_matched"

definition providerName_of :: "provider option \<Rightarrow> string" where
  "providerName_of p =
     (case p of
        None \<Rightarrow> []
      | Some providerData \<Rightarrow>
          or_default (organizationName providerData)
            (or_default (organisationName providerData) (or_default (provider_name providerData) [])))"

text \<open>The handler has no \<open>try/catch\<close>: the second component is the error it rejects with.\<close>

definition onMatchedDonorAdded :: "world \<Rightarrow> request \<Rightarrow> request \<Rightarrow> string \<Rightarrow> string \<Rightarrow>
    effect list \<times> error option" where
  "onMatchedDonorAdded w before after providerId requestId =
     (case matchedDonors before of
        None \<Rightarrow> ([], None)
      | Some before_matched \<Rightarrow>
         (case matchedDonors after of
            None \<Rightarrow> ([], None)
          | Some after_matched \<Rightarrow>
              if length (newDonors before_matched after_matched) = 0 then ([], None)
              else if requestedBy after = [] then ([], None)
              else (case usersDoc w (requestedBy after) of
                None \<Rightarrow> ([], Some StoreUnavailable)
              | Some None \<Rightarrow> ([], None)
              | Some (Some userData) \<Rightarrow>
                  if fcmToken userData = [] then ([], None)
                  else (case providersDoc w providerId of
                    None \<Rightarrow> ([], Some StoreUnavailable)
                  | Some providerDocSnap \<Rightarrow>
                      confirm_each w requestId (fcmToken userData)
                        (providerName_of providerDocSnap) 0
                        (newDonors before_matched after_matched)))))"

section \<open>onBloodRequestDeleted\<close>

text \<open>\<open>Promise.all\<close> over the reads of \<open>users/uid\<close>: it rejects when one of them does.\<close>

fun get_all :: "world \<Rightarrow> string list \<Rightarrow> user option list option" where
  "get_all w [] = Some []"
| "get_all w (u # us) =
     (case usersDoc w u of
        None \<Rightarrow> None
      | Some doc \<Rightarrow> (case get_all w us of None \<Rightarrow> None | Some docs \<Rightarrow> Some (doc # docs)))"

text \<open>\<open>donorDocs.map((doc) => doc.exists && doc.data().fcmToken).filter(Boolean)\<close>\<close>

definition tokens_of :: "user option list \<Rightarrow> string list" where
  "tokens_of donorDocs =
     filter (\<lambda>t. t \<noteq> []) (map (\<lambda>doc. case doc of None \<Rightarrow> [] | Some u \<Rightarrow> fcmToken u) donorDocs)"

text \<open>\<open>before\<close> and \<open>after\<close> are the two snapshots of the write event, \<open>None\<close> when
  \<open>exists\<close> is false.\<close>

definition onBloodRequestDeleted :: "world \<Rightarrow> request option \<Rightarrow> request option \<Rightarrow> string \<Rightarrow>
    effect list \<times> error option" where
  "onBloodRequestDeleted w before after requestId =
     (case after of
        Some _ \<Rightarrow> ([], None)
      | None \<Rightarrow>
         (case before of
            None \<Rightarrow> ([], None)
          | Some requestData \<Rightarrow>
              if length (case foundDonors requestData of None \<Rightarrow> [] | Some ids \<Rightarrow> ids) = 0
              then ([], None)
              else (case get_all w (case foundDonors requestData of None \<Rightarrow> [] | Some ids \<Rightarrow> ids) of
                None \<Rightarrow> ([], Some StoreUnavailable)
              | Some donorDocs \<Rightarrow>
                  if length (tokens_of donorDocs) = 0 then ([], None)
                  else await w (SendEachForMulticast (tokens_of donorDocs) requestId
                                  REQUEST_CANCELLED) ([], None))))"

declare search_loop.simps [simp del] search_trace.simps [simp del]

section \<open>Predicates used in the statements\<close>

text \<open>
  What the loop body has checked of an entry of \<open>matchingDonors\<close> that entered the map
  at radius \<open>r\<close>.
\<close>

definition admitted :: "world \<Rightarrow> geopoint \<Rightarrow> json list \<Rightarrow> nat \<Rightarrow> matched \<Rightarrow> bool" where
  "admitted w center std r a \<longleftrightarrow>
     (\<exists>gp. geo a = Some gp \<and> distanceBetween w gp center \<le> real r)
     \<and> JStr (donorBloodGroup w a) \<in> set std
     \<and> isAvailable a \<and> uid a \<noteq> [] \<and> donor_fcmToken a \<noteq> []"

text \<open>
  The acceptance test of the loop body, read on a document of the \<open>donors\<close> collection:
  the document would enter the map at radius \<open>r\<close>.
\<close>

definition eligible :: "world \<Rightarrow> geopoint \<Rightarrow> json list \<Rightarrow> nat \<Rightarrow> donor \<Rightarrow> bool" where
  "eligible w center std r d \<longleftrightarrow>
     (\<exists>gp userData. geo d = Some gp \<and> uid d \<noteq> []
        \<and> usersDoc w (uid d) = Some (Some userData)
        \<and> distanceBetween w gp center \<le> real r
        \<and> JStr (donorBloodGroup w d) \<in> set std
        \<and> isAvailable d \<and> fcmToken userData \<noteq> [])"

text \<open>
  No range query up to the ceiling returns an eligible document, and every read the search
  makes is answered.
\<close>

definition nobody_eligible :: "world \<Rightarrow> geopoint \<Rightarrow> json list \<Rightarrow> bool" where
  "nobody_eligible w center std \<longleftrightarrow>
     (\<forall>u. usersDoc w u \<noteq> None) \<and>
     (\<forall>r \<le> maxRadiusKm. \<exists>snaps. donorsInBounds w center r = Some snaps
         \<and> (\<forall>snap \<in> set snaps. \<forall>(docId, d) \<in> set snap. \<not> eligible w center std r d))"

text \<open>
  The radius stays even and at most 52, and the flag is set exactly when the radius has
  passed the ceiling.
\<close>

definition radius_inv :: "search_state \<Rightarrow> bool" where
  "radius_inv s \<longleftrightarrow> even (currentRadiusKm s) \<and> currentRadiusKm s \<le> 52
     \<and> (expandedToMax s \<longleftrightarrow> 50 < currentRadiusKm s)"

text \<open>
  The notification tokens of the recorded donors: for each recorded id, in order, the token
  of its profile when the profile exists and holds one.
\<close>

definition recorded_tokens :: "world \<Rightarrow> string list \<Rightarrow> string list" where
  "recorded_tokens w ids =
     concat (map (\<lambda>u. case usersDoc w u of
                         Some (Some p) \<Rightarrow> if fcmToken p \<noteq> [] then [fcmToken p] else []
                       | _ \<Rightarrow> []) ids)"


definition donor_matched :: "world \<Rightarrow> string \<Rightarrow> string \<Rightarrow> string \<Rightarrow> user \<Rightarrow> nat \<Rightarrow> effect" where
  "donor_matched w requestId requesterToken donorUid donorData hour =
     SendEachForMulticast [requesterToken] requestId
       (DONOR_MATCHED donorUid
          (''Name: '' @ str_trim w (firstName donorData @ '' '' @ lastName donorData) @ [CHR 0x0A]
           @ ''Area: ''
           @ or_default (if 6 \<le> hour \<and> hour < 18 then daytimeAddress donorData
                         else nighttimeAddress donorData) ''Unknown''
           @ [CHR 0x0A] @ ''Kindly prepare for donation.''))"

section \<open>Example data\<close>

text \<open>
  A provider at the origin with seven donor documents on the x axis, at the distance of their
  first argument (\<open>distanceBetween\<close> is instantiated with the 1-norm): five of group O at
  1.5, 3, 4.5, 7 and 9.5 km and two of other groups at 2 km. Every range query over-fetches:
  it returns all seven documents at every radius. Every user has a profile with a token.
  The two string built-ins are given on the strings of the examples: blanks are trimmed and
  the blood-group letters raised.
\<close>

definition demo_trim :: "string \<Rightarrow> string" where
  "demo_trim s = rev (dropWhile (\<lambda>c. c = CHR '' '') (rev (dropWhile (\<lambda>c. c = CHR '' '') s)))"

definition demo_toUpperCase :: "string \<Rightarrow> string" where
  "demo_toUpperCase s =
     map (\<lambda>c. if c = CHR ''o'' then CHR ''O'' else if c = CHR ''a'' then CHR ''A''
              else if c = CHR ''b'' then CHR ''B'' else c) s"

definition demo_donor :: "real \<Rightarrow> string \<Rightarrow> string \<Rightarrow> donor" where
  "demo_donor x g u = \<lparr>bloodGroup = g, geo = Some (x, 0), uid = u, isAvailable = True\<rparr>"

definition demo_docs :: "(string \<times> donor) list" where
  "demo_docs =
     [(''d5'', demo_donor (19/2) ''O+'' ''u5''), (''x1'', demo_donor 2 ''A+'' ''v1''),
      (''d1'', demo_donor (3/2) ''O+'' ''u1''), (''d4'', demo_donor 7 ''O-'' ''u4''),
      (''d2'', demo_donor 3 '' o-'' ''u2''), (''x2'', demo_donor 2 ''B+'' ''v2''),
      (''d3'', demo_donor (9/2) ''O+'' ''u3'')]"

definition demo_user :: "string \<Rightarrow> user" where
  "demo_user u = \<lparr>fcmToken = ''token-'' @ u, firstName = ''Ada'', lastName = ''Obi'',
                 daytimeAddress = ''Ikeja'', nighttimeAddress = ''Yaba''\<rparr>"

definition demo_provider :: provider where
  "demo_provider = \<lparr>provider_geo = Some (0, 0), provider_name = ''General Hospital'',
                     organizationName = [], organisationName = ''GH Lagos''\<rparr>"

definition demo_world :: world where
  "demo_world =
     \<lparr>distanceBetween = (\<lambda>p q. \<bar>fst p - fst q\<bar> + \<bar>snd p - snd q\<bar>),
      donorsInBounds = (\<lambda>center r. Some [demo_docs]),
      usersDoc = (\<lambda>u. Some (Some (demo_user u))),
      providersDoc = (\<lambda>p. if p = ''p1'' then Some (Some demo_provider) else Some None),
      str_trim = demo_trim,
      str_toUpperCase = demo_toUpperCase,
      axios_post = (\<lambda>q. AxiosRejected),
      JSON_parse = (\<lambda>s. None),
      getHours = (\<lambda>i. 12),
      resolves = (\<lambda>e. True)\<rparr>"

definition demo_request :: request where
  "demo_request = \<lparr>req_bloodGroup = [JStr ''O+'', JStr ''o- ''], unitsRequested = Some 2,
                    requestedBy = ''requester'', title = ''Theatre 2'',
                    matchedDonors = Some [], foundDonors = None\<rparr>"

text \<open>The accepted map after the passes at 2, 4 and 6 km.\<close>

definition demo_m1 :: "(string \<times> matched) list" where
  "demo_m1 = [(''d1'', matched_of (demo_donor (3/2) ''O+'' ''u1'') (demo_user ''u1''))]"

definition demo_m2 :: "(string \<times> matched) list" where
  "demo_m2 = demo_m1 @ [(''d2'', matched_of (demo_donor 3 '' o-'' ''u2'') (demo_user ''u2''))]"

definition demo_m3 :: "(string \<times> matched) list" where
  "demo_m3 = demo_m2 @ [(''d3'', matched_of (demo_donor (9/2) ''O+'' ''u3'') (demo_user ''u3''))]"

text \<open>
  A world whose range queries return only a donor of another group and a donor of the
  requested group 60 km away.
\<close>

definition nobody_world :: world where
  "nobody_world = demo_world\<lparr>donorsInBounds :=
      (\<lambda>center r. Some [[(''x1'', demo_donor 2 ''A+'' ''v1'')], [(''x2'', demo_donor 60 ''O+'' ''v2'')]])\<rparr>"

text \<open>
  A request for four and a half units, and a world whose range queries return six eligible
  donors within 2 km at every radius.
\<close>

definition fractional_request :: request where
  "fractional_request = demo_request\<lparr>unitsRequested := Some (9/2)\<rparr>"

definition crowded_docs :: "(string \<times> donor) list" where
  "crowded_docs =
     [(''n1'', demo_donor (1/2) ''O+'' ''w1''), (''n2'', demo_donor 1 ''O+'' ''w2''),
      (''n3'', demo_donor (3/2) ''O+'' ''w3''), (''n4'', demo_donor 1 ''O+'' ''w4''),
      (''n5'', demo_donor 2 ''O+'' ''w5''), (''n6'', demo_donor 1 ''O+'' ''w6'')]"

definition crowded_world :: world where
  "crowded_world = demo_world\<lparr>donorsInBounds := (\<lambda>center r. Some [crowded_docs])\<rparr>"

definition crowded_m5 :: "(string \<times> matched) list" where
  "crowded_m5 =
     [(''n1'', matched_of (demo_donor (1/2) ''O+'' ''w1'') (demo_user ''w1'')),
      (''n2'', matched_of (demo_donor 1 ''O+'' ''w2'') (demo_user ''w2'')),
      (''n3'', matched_of (demo_donor (3/2) ''O+'' ''w3'') (demo_user ''w3'')),
      (''n4'', matched_of (demo_donor 1 ''O+'' ''w4'') (demo_user ''w4'')),
      (''n5'', matched_of (demo_donor 2 ''O+'' ''w5'') (demo_user ''w5''))]"

text \<open>
  The two donor documents of one user (daytime and nighttime address), both accepted, and
  an agent that answers in prose.
\<close>

definition twin_day :: matched where
  "twin_day = \<lparr>bloodGroup = ''O+'', geo = Some (1, 0), uid = ''u1'', isAvailable = True,
               donor_fcmToken = ''token-u1''\<rparr>"

definition twin_night :: matched where
  "twin_night = \<lparr>bloodGroup = ''O+'', geo = Some (0, 1), uid = ''u1'', isAvailable = True,
                 donor_fcmToken = ''token-u1''\<rparr>"

definition chatty_world :: world where
  "chatty_world = demo_world\<lparr>axios_post := (\<lambda>q. AxiosResponse 200 ''Here are the best donors.''),
                              JSON_parse := (\<lambda>s. None)\<rparr>"

text \<open>
  A deleted request that recorded three notified donors, and a world in which the second of
  them has no profile any more.
\<close>

definition deleted_request :: request where
  "deleted_request = demo_request\<lparr>foundDonors := Some [''A'', ''B'', ''C'']\<rparr>"

definition lapsed_world :: world where
  "lapsed_world = demo_world\<lparr>usersDoc :=
      (\<lambda>u. if u = ''B'' then Some None else Some (Some (demo_user u)))\<rparr>"

text \<open>
  An update that adds \<open>u2\<close> to the confirmed donors, and a world in which the requester
  holds no notification token.
\<close>

definition confirm_before :: request where
  "confirm_before = demo_request\<lparr>matchedDonors := Some [''u1'']\<rparr>"

definition confirm_after :: request where
  "confirm_after = demo_request\<lparr>matchedDonors := Some [''u1'', ''u2'']\<rparr>"


section \<open>The search: invariants of the loops\<close>

lemma Map_has_iff: "Map_has m k \<longleftrightarrow> k \<in> fst ` set m"
  by (induction m) auto

lemma Map_set_absent: "\<not> Map_has m k \<Longrightarrow> Map_set m k v = m @ [(k, v)]"
  by (induction m) auto

lemma Map_set_values: "snd ` set (Map_set m k v) \<subseteq> insert v (snd ` set m)"
proof (induction m)
  case Nil
  then show ?case by simp
next
  case (Cons p m)
  obtain k' v' where p: "p = (k', v')" by (cases p)
  from Cons show ?case unfolding p by (cases "k' = k") auto
qed

lemma admitted_matched_of:
  assumes "geo d = Some gp" "distanceBetween w gp center \<le> real r"
    "JStr (donorBloodGroup w d) \<in> set std" "isAvailable d" "uid d \<noteq> []"
    "fcmToken userData \<noteq> []"
  shows "admitted w center std r (matched_of d userData)"
  using assms by (simp add: admitted_def matched_of_def donorBloodGroup_def)

text \<open>
What one document can do to the map.
\<close>

lemma scan_docs_Cons_cases:
  assumes "scan_docs w center std target r ((docId, d) # docs) m = Inr m'"
  shows "scan_docs w center std target r docs m = Inr m'
       \<or> (\<exists>a. \<not> Map_has m docId \<and> admitted w center std r a
              \<and> (if target \<le> real (length (m @ [(docId, a)])) then m' = m @ [(docId, a)]
                  else scan_docs w center std target r docs (m @ [(docId, a)]) = Inr m'))"
proof (cases "scan_docs w center std target r docs m = Inr m'")
  case True
  then show ?thesis by simp
next
  case False
  then obtain gp userData where
    acc: "\<not> Map_has m docId" "geo d = Some gp" "uid d \<noteq> []"
      "usersDoc w (uid d) = Some (Some userData)"
      "distanceBetween w gp center \<le> real r" "JStr (donorBloodGroup w d) \<in> set std"
      "isAvailable d" "fcmToken userData \<noteq> []"
    using assms by (auto split: if_splits option.splits)
  let ?a = "matched_of d userData"
  have set1: "Map_set m docId ?a = m @ [(docId, ?a)]"
    using acc(1) by (rule Map_set_absent)
  have ok: "admitted w center std r ?a"
    using acc by (intro admitted_matched_of)
  have "if target \<le> real (length (m @ [(docId, ?a)])) then m' = m @ [(docId, ?a)]
        else scan_docs w center std target r docs (m @ [(docId, ?a)]) = Inr m'"
    using assms acc by (simp add: set1 split: if_splits)
  with acc(1) ok show ?thesis by blast
qed

text \<open>
  An invariant rule for the three nested loops: a property of the map that survives the
  insertion of an admitted entry under a fresh key, while the map is below target, holds of
  the map the loop leaves.
\<close>

lemma scan_docs_rule:
  assumes "scan_docs w center std target r docs m = Inr m'"
    and "real (length m) < target" and "P m"
    and step: "\<And>m docId a. P m \<Longrightarrow> real (length m) < target \<Longrightarrow> \<not> Map_has m docId \<Longrightarrow>
                 admitted w center std r a \<Longrightarrow> P (m @ [(docId, a)])"
  shows "P m'"
  using assms(1-3)
proof (induction docs arbitrary: m)
  case Nil
  then show ?case by simp
next
  case (Cons p docs)
  obtain docId d where p: "p = (docId, d)" by (cases p)
  from Cons.prems(1)[unfolded p] have
    "scan_docs w center std target r docs m = Inr m'
       \<or> (\<exists>a. \<not> Map_has m docId \<and> admitted w center std r a
              \<and> (if target \<le> real (length (m @ [(docId, a)])) then m' = m @ [(docId, a)]
                  else scan_docs w center std target r docs (m @ [(docId, a)]) = Inr m'))"
    by (rule scan_docs_Cons_cases)
  then show ?case
  proof (elim disjE exE conjE)
    assume "scan_docs w center std target r docs m = Inr m'"
    then show ?thesis using Cons.IH Cons.prems by blast
  next
    fix a
    assume a: "\<not> Map_has m docId" "admitted w center std r a"
      and rest: "if target \<le> real (length (m @ [(docId, a)])) then m' = m @ [(docId, a)]
                 else scan_docs w center std target r docs (m @ [(docId, a)]) = Inr m'"
    have P1: "P (m @ [(docId, a)])"
      using step[OF Cons.prems(3) Cons.prems(2) a] .
    show ?thesis
    proof (cases "target \<le> real (length (m @ [(docId, a)]))")
      case True
      with rest P1 show ?thesis by simp
    next
      case False
      with rest have "scan_docs w center std target r docs (m @ [(docId, a)]) = Inr m'" by simp
      from Cons.IH[OF this _ P1] False show ?thesis by simp
    qed
  qed
qed

lemma scan_snapshots_rule:
  assumes "scan_snapshots w center std target r snaps m = Inr m'"
    and "real (length m) < target" and "P m"
    and step: "\<And>m docId a. P m \<Longrightarrow> real (length m) < target \<Longrightarrow> \<not> Map_has m docId \<Longrightarrow>
                 admitted w center std r a \<Longrightarrow> P (m @ [(docId, a)])"
  shows "P m'"
  using assms(1-3)
proof (induction snaps arbitrary: m)
  case Nil
  then show ?case by simp
next
  case (Cons snap snaps)
  from Cons.prems(1) obtain m1 where
    m1: "scan_docs w center std target r snap m = Inr m1"
    and rest: "if target \<le> real (length m1) then m' = m1
               else scan_snapshots w center std target r snaps m1 = Inr m'"
    by (auto split: sum.splits if_splits)
  have P1: "P m1"
    using m1 Cons.prems(2,3) step by (rule scan_docs_rule)
  show ?case
  proof (cases "target \<le> real (length m1)")
    case True
    with rest P1 show ?thesis by simp
  next
    case False
    with rest have "scan_snapshots w center std target r snaps m1 = Inr m'" by simp
    from Cons.IH[OF this _ P1] False show ?thesis by simp
  qed
qed

lemma search_pass_rule:
  assumes "search_pass w center std target s = Inr s'"
    and "loop_cond target s" and "P (matchingDonors s)"
    and step: "\<And>m docId a. P m \<Longrightarrow> real (length m) < target \<Longrightarrow> \<not> Map_has m docId \<Longrightarrow>
                 admitted w center std (currentRadiusKm s) a \<Longrightarrow> P (m @ [(docId, a)])"
  shows "P (matchingDonors s')"
proof -
  from assms(1) obtain snaps m where
    scan: "scan_snapshots w center std target (currentRadiusKm s) snaps (matchingDonors s) = Inr m"
    and m: "matchingDonors s' = m"
    by (auto simp: search_pass_def split: option.splits sum.splits if_splits)
  have "P m"
  proof (rule scan_snapshots_rule[where P = P, OF scan])
    show "real (length (matchingDonors s)) < target"
      using assms(2) by (simp add: loop_cond_def)
    show "P (matchingDonors s)" by fact
  qed (auto intro: step)
  with m show ?thesis by simp
qed

lemma search_pass_radius:
  assumes "search_pass w center std target s = Inr s'"
  shows "currentRadiusKm s' =
           (if real (length (matchingDonors s')) < target then currentRadiusKm s + 2
            else currentRadiusKm s)"
    and "expandedToMax s' =
           (if real (length (matchingDonors s')) < target \<and> 50 < currentRadiusKm s + 2 then True
            else expandedToMax s)"
  using assms
  by (auto simp: search_pass_def stepKm_def maxRadiusKm_def split: option.splits sum.splits if_splits)

text \<open>
  \<open>search_trace\<close> is the run of \<open>search_loop\<close>: the loop returns what the last
  iteration leaves, or its start state when no iteration runs.
\<close>

lemma search_loop_trace:
  "search_loop w center std target s =
     (case search_trace w center std target s of
        [] \<Rightarrow> Inr s
      | x # xs \<Rightarrow> snd (last (x # xs)))"
proof (induction w center std target s rule: search_trace.induct)
  case (1 w center std target s)
  show ?case
  proof (cases "loop_cond target s")
    case False
    then show ?thesis
      by (simp add: search_loop.simps[of w center std target s]
            search_trace.simps[of w center std target s])
  next
    case c: True
    show ?thesis
    proof (cases "search_pass w center std target s")
      case (Inl e)
      with c show ?thesis
        by (simp add: search_loop.simps[of w center std target s]
              search_trace.simps[of w center std target s])
    next
      case (Inr s1)
      from "1.IH"[OF c Inr] c Inr show ?thesis
        by (simp add: search_loop.simps[of w center std target s]
              search_trace.simps[of w center std target s] split: list.splits)
    qed
  qed
qed

lemma findMatchingDonors_result:
  assumes "findMatchingDonors w center requestedGroups target = Inr res"
  shows "res = init_state \<and> \<not> loop_cond target init_state
       \<or> (\<exists>r. (r, Inr res) \<in> set (search_trace w center (standardize w requestedGroups) target init_state))"
proof (cases "search_trace w center (standardize w requestedGroups) target init_state")
  case Nil
  with assms show ?thesis
    by (simp add: findMatchingDonors_def search_loop_trace
          search_trace.simps[of w center "standardize w requestedGroups" target init_state]
       split: if_splits sum.splits)
next
  case (Cons x xs)
  with assms have "snd (last (x # xs)) = Inr res"
    by (simp add: findMatchingDonors_def search_loop_trace del: last.simps)
  moreover have "last (x # xs) \<in> set (x # xs)" by (rule last_in_set) simp
  ultimately have "(fst (last (x # xs)), Inr res) \<in> set (x # xs)"
    by (metis prod.collapse)
  with Cons show ?thesis by auto
qed

lemma search_trace_radius_le:
  "(r, x) \<in> set (search_trace w center std target s) \<Longrightarrow> currentRadiusKm s \<le> r"
proof (induction w center std target s rule: search_trace.induct)
  case (1 w center std target s)
  show ?case
  proof (cases "search_pass w center std target s")
    case (Inl e)
    with "1.prems" show ?thesis
      by (simp add: search_trace.simps[of w center std target s] split: if_splits)
  next
    case (Inr s1)
    with "1.prems" have c: "loop_cond target s"
      and "(r, x) = (currentRadiusKm s, Inr s1) \<or> (r, x) \<in> set (search_trace w center std target s1)"
      by (simp_all add: search_trace.simps[of w center std target s] split: if_splits)
    then show ?thesis
    proof (elim disjE)
      assume "(r, x) \<in> set (search_trace w center std target s1)"
      from "1.IH"[OF c Inr this] search_pass_radius(1)[OF Inr]
      show ?thesis by (simp split: if_splits)
    qed simp
  qed
qed

lemma search_trace_rule:
  assumes "(r, Inr s') \<in> set (search_trace w center std target s)"
    and "P (matchingDonors s)"
    and "\<And>m docId a \<rho>. P m \<Longrightarrow> real (length m) < target \<Longrightarrow> \<not> Map_has m docId \<Longrightarrow>
                 \<rho> \<le> r \<Longrightarrow> admitted w center std \<rho> a \<Longrightarrow> P (m @ [(docId, a)])"
  shows "P (matchingDonors s')"
  using assms
proof (induction w center std target s rule: search_trace.induct)
  case (1 w center std target s)
  note step = "1.prems"(3)
  show ?case
  proof (cases "search_pass w center std target s")
    case (Inl e)
    with "1.prems"(1) show ?thesis
      by (simp add: search_trace.simps[of w center std target s] split: if_splits)
  next
    case (Inr s1)
    with "1.prems"(1) have c: "loop_cond target s"
      and mem: "(r, Inr s') = (currentRadiusKm s, Inr s1)
              \<or> (r, Inr s') \<in> set (search_trace w center std target s1)"
      by (simp_all add: search_trace.simps[of w center std target s] split: if_splits)
    have le: "currentRadiusKm s \<le> r"
      using "1.prems"(1) by (rule search_trace_radius_le)
    have P1: "P (matchingDonors s1)"
    proof (rule search_pass_rule[where P = P, OF Inr c "1.prems"(2)])
      fix m docId a
      assume "P m" "real (length m) < target" "\<not> Map_has m docId"
        "admitted w center std (currentRadiusKm s) a"
      then show "P (m @ [(docId, a)])" using le by (intro step)
    qed
    from mem show ?thesis
    proof (elim disjE)
      assume "(r, Inr s') = (currentRadiusKm s, Inr s1)"
      with P1 show ?thesis by simp
    next
      assume "(r, Inr s') \<in> set (search_trace w center std target s1)"
      from "1.IH"[OF c Inr this P1 step] show ?thesis by simp
    qed
  qed
qed

lemma search_trace_nth:
  assumes "i < length (search_trace w center std target s)"
    and "search_trace w center std target s ! i = (r, Inr s')"
  shows "drop (Suc i) (search_trace w center std target s) = search_trace w center std target s'
       \<and> (\<exists>s0. r = currentRadiusKm s0 \<and> loop_cond target s0
                \<and> search_pass w center std target s0 = Inr s')"
  using assms
proof (induction i arbitrary: s)
  case 0
  then show ?case
    by (cases "search_pass w center std target s")
       (auto simp: search_trace.simps[of w center std target s] split: if_splits)
next
  case (Suc i)
  from Suc.prems(1) have c: "loop_cond target s"
    by (simp add: search_trace.simps[of w center std target s] split: if_splits)
  show ?case
  proof (cases "search_pass w center std target s")
    case (Inl e)
    with Suc.prems c show ?thesis
      by (simp add: search_trace.simps[of w center std target s])
  next
    case (Inr s1)
    then have unf: "search_trace w center std target s
                  = (currentRadiusKm s, Inr s1) # search_trace w center std target s1"
      using c by (simp add: search_trace.simps[of w center std target s])
    from Suc.prems have "i < length (search_trace w center std target s1)"
      and "search_trace w center std target s1 ! i = (r, Inr s')"
      by (simp_all add: unf)
    from Suc.IH[OF this] show ?thesis by (simp add: unf)
  qed
qed

lemma search_trace_prefix:
  assumes "(r, Inr s') \<in> set (search_trace w center std target s)"
  shows "\<exists>new. matchingDonors s' = matchingDonors s @ new"
  by (rule search_trace_rule[where P = "\<lambda>m. \<exists>new. m = matchingDonors s @ new", OF assms]) auto

lemma search_trace_distinct:
  assumes "(r, Inr s') \<in> set (search_trace w center std target s)"
    and "distinct (map fst (matchingDonors s))"
  shows "distinct (map fst (matchingDonors s'))"
  by (rule search_trace_rule[where P = "\<lambda>m. distinct (map fst m)", OF assms])
     (auto simp: Map_has_iff)

lemma search_trace_size:
  assumes "(r, Inr s') \<in> set (search_trace w center std target init_state)"
  shows "int (length (matchingDonors s')) \<le> \<lceil>target\<rceil>"
proof -
  from assms have "search_trace w center std target init_state \<noteq> []" by auto
  then have "loop_cond target init_state"
    by (simp add: search_trace.simps[of w center std target init_state] split: if_splits)
  then have t: "0 < target" by (simp add: loop_cond_def init_state_def)
  show ?thesis
  proof (rule search_trace_rule[where P = "\<lambda>m. int (length m) \<le> \<lceil>target\<rceil>", OF assms])
    show "int (length (matchingDonors init_state)) \<le> \<lceil>target\<rceil>"
      using t by (simp add: init_state_def)
  next
    fix m :: "(string \<times> matched) list" and docId a \<rho>
    assume "real (length m) < target"
    then have "int (length m) < \<lceil>target\<rceil>" by linarith
    then show "int (length (m @ [(docId, a)])) \<le> \<lceil>target\<rceil>" by simp
  qed
qed

lemma search_trace_length:
  "length (search_trace w center std target s) \<le> (52 - currentRadiusKm s) div 2"
proof (induction w center std target s rule: search_trace.induct)
  case (1 w center std target s)
  show ?case
  proof (cases "loop_cond target s")
    case False
    then show ?thesis by (simp add: search_trace.simps[of w center std target s])
  next
    case c: True
    then have r: "currentRadiusKm s \<le> 50" by (simp add: loop_cond_def maxRadiusKm_def)
    show ?thesis
    proof (cases "search_pass w center std target s")
      case (Inl e)
      with c have "length (search_trace w center std target s) = 1"
        by (simp add: search_trace.simps[of w center std target s])
      with r show ?thesis by arith
    next
      case (Inr s1)
      show ?thesis
      proof (cases "loop_cond target s1")
        case False
        with c Inr have "length (search_trace w center std target s) = 1"
          by (simp add: search_trace.simps[of w center std target s]
                search_trace.simps[of w center std target s1])
        with r show ?thesis by arith
      next
        case True
        then have "currentRadiusKm s1 = currentRadiusKm s + 2"
          using search_pass_radius(1)[OF Inr] by (simp add: loop_cond_def)
        moreover have "length (search_trace w center std target s)
                     = Suc (length (search_trace w center std target s1))"
          using c Inr by (simp add: search_trace.simps[of w center std target s])
        ultimately show ?thesis using "1.IH"[OF c Inr] r by arith
      qed
    qed
  qed
qed

lemma search_loop_exit:
  assumes "search_loop w center std target s = Inr res" and "radius_inv s"
  shows "radius_inv res \<and> \<not> loop_cond target res"
  using assms
proof (induction w center std target s rule: search_loop.induct)
  case (1 w center std target s)
  show ?case
  proof (cases "loop_cond target s")
    case False
    with "1.prems" show ?thesis by (simp add: search_loop.simps[of w center std target s])
  next
    case c: True
    with "1.prems"(1) obtain s1 where p: "search_pass w center std target s = Inr s1"
      and l: "search_loop w center std target s1 = Inr res"
      by (auto simp: search_loop.simps[of w center std target s] split: sum.splits)
    have "radius_inv s1"
      using search_pass_radius[OF p] "1.prems"(2) c
      by (auto simp: radius_inv_def loop_cond_def maxRadiusKm_def)
    from "1.IH"[OF c p l this] show ?thesis .
  qed
qed

text \<open>
With nobody eligible the loops leave the map as it is.
\<close>

lemma scan_docs_none:
  assumes "\<forall>(docId, d) \<in> set docs. \<not> eligible w center std r d"
    and "\<forall>u. usersDoc w u \<noteq> None"
  shows "scan_docs w center std target r docs m = Inr m"
  using assms(1)
proof (induction docs)
  case Nil
  then show ?case by simp
next
  case (Cons p docs)
  obtain docId d where p: "p = (docId, d)" by (cases p)
  from Cons.prems have ne: "\<not> eligible w center std r d" and rest: "\<forall>(docId, d) \<in> set docs. \<not> eligible w center std r d"
    by (simp_all add: p)
  from Cons.IH[OF rest] have IH: "scan_docs w center std target r docs m = Inr m" .
  show ?case
    using ne assms(2)[rule_format, of "uid d"] unfolding p
    by (auto simp: IH eligible_def split: option.splits)
qed

lemma scan_snapshots_none:
  assumes "\<forall>snap \<in> set snaps. \<forall>(docId, d) \<in> set snap. \<not> eligible w center std r d"
    and "\<forall>u. usersDoc w u \<noteq> None" and "real (length m) < target"
  shows "scan_snapshots w center std target r snaps m = Inr m"
  using assms(1)
proof (induction snaps)
  case Nil
  then show ?case by simp
next
  case (Cons snap snaps)
  then have "scan_docs w center std target r snap m = Inr m"
    by (intro scan_docs_none assms(2)) simp
  with Cons assms(3) show ?case by simp
qed

lemma search_loop_nobody:
  assumes "nobody_eligible w center std" and "0 < target"
    and "matchingDonors s = []" and "even (currentRadiusKm s)" and "currentRadiusKm s \<le> 50"
  shows "search_loop w center std target s
       = Inr \<lparr>matchingDonors = [], currentRadiusKm = 52, expandedToMax = True\<rparr>"
  using assms
proof (induction w center std target s rule: search_loop.induct)
  case (1 w center std target s)
  have c: "loop_cond target s"
    using "1.prems" by (simp add: loop_cond_def maxRadiusKm_def)
  obtain snaps where q: "donorsInBounds w center (currentRadiusKm s) = Some snaps"
    and ne: "\<forall>snap \<in> set snaps. \<forall>(docId, d) \<in> set snap. \<not> eligible w center std (currentRadiusKm s) d"
    using "1.prems"(1,5) unfolding nobody_eligible_def maxRadiusKm_def by blast
  have "scan_snapshots w center std target (currentRadiusKm s) snaps (matchingDonors s)
          = Inr (matchingDonors s)"
    using ne "1.prems" by (intro scan_snapshots_none) (simp_all add: nobody_eligible_def)
  then have p: "search_pass w center std target s
      = Inr \<lparr>matchingDonors = [], currentRadiusKm = currentRadiusKm s + 2,
             expandedToMax = (if 50 < currentRadiusKm s + 2 then True else expandedToMax s)\<rparr>"
    (is "_ = Inr ?s1")
    using "1.prems" q by (simp add: search_pass_def stepKm_def maxRadiusKm_def)
  have unf: "search_loop w center std target s = search_loop w center std target ?s1"
    using c p by (simp add: search_loop.simps[of w center std target s])
  show ?case
  proof (cases "currentRadiusKm s + 2 \<le> 50")
    case True
    from "1.IH"[OF c p "1.prems"(1,2)] True "1.prems"(4) show ?thesis
      by (simp add: unf)
  next
    case False
    with "1.prems"(4,5) have r50: "currentRadiusKm s = 50" by presburger
    then have "\<not> loop_cond target ?s1" by (simp add: loop_cond_def maxRadiusKm_def)
    then have "search_loop w center std target ?s1 = Inr ?s1"
      by (subst search_loop.simps) simp
    then show ?thesis using r50 by (simp add: unf)
  qed
qed

subsection \<open>The example search\<close>

text \<open>
  Requested groups O+ and O-, target 3: the nearest three eligible donors are accepted at
  the third step (radius 6) and the flag stays unset.
\<close>

lemma demo_pass1:
  "search_pass demo_world (0, 0) [JStr ''O+'', JStr ''O-''] 3 init_state
     = Inr \<lparr>matchingDonors = demo_m1, currentRadiusKm = 4, expandedToMax = False\<rparr>"
  by (simp add: search_pass_def demo_world_def demo_trim_def demo_toUpperCase_def demo_docs_def demo_donor_def demo_user_def
        init_state_def demo_m1_def matched_of_def donorBloodGroup_def or_default_def
        stepKm_def maxRadiusKm_def)

lemma demo_pass2:
  "search_pass demo_world (0, 0) [JStr ''O+'', JStr ''O-''] 3
      \<lparr>matchingDonors = demo_m1, currentRadiusKm = 4, expandedToMax = False\<rparr>
     = Inr \<lparr>matchingDonors = demo_m2, currentRadiusKm = 6, expandedToMax = False\<rparr>"
  by (simp add: search_pass_def demo_world_def demo_trim_def demo_toUpperCase_def demo_docs_def demo_donor_def demo_user_def
        demo_m1_def demo_m2_def matched_of_def donorBloodGroup_def or_default_def
        stepKm_def maxRadiusKm_def)

lemma demo_pass3:
  "search_pass demo_world (0, 0) [JStr ''O+'', JStr ''O-''] 3
      \<lparr>matchingDonors = demo_m2, currentRadiusKm = 6, expandedToMax = False\<rparr>
     = Inr \<lparr>matchingDonors = demo_m3, currentRadiusKm = 6, expandedToMax = False\<rparr>"
  by (simp add: search_pass_def demo_world_def demo_trim_def demo_toUpperCase_def demo_docs_def demo_donor_def demo_user_def
        demo_m1_def demo_m2_def demo_m3_def matched_of_def donorBloodGroup_def or_default_def
        stepKm_def maxRadiusKm_def)

lemma demo_standardize:
  "standardize demo_world [JStr ''O+'', JStr ''o- ''] = [JStr ''O+'', JStr ''O-'']"
  by (simp add: standardize_def demo_world_def demo_trim_def demo_toUpperCase_def)

lemma demo_trace:
  "search_trace demo_world (0, 0) [JStr ''O+'', JStr ''O-''] 3 init_state =
     [(2, Inr \<lparr>matchingDonors = demo_m1, currentRadiusKm = 4, expandedToMax = False\<rparr>),
      (4, Inr \<lparr>matchingDonors = demo_m2, currentRadiusKm = 6, expandedToMax = False\<rparr>),
      (6, Inr \<lparr>matchingDonors = demo_m3, currentRadiusKm = 6, expandedToMax = False\<rparr>)]"
proof -
  have l1: "length demo_m1 = 1" and l2: "length demo_m2 = 2" and l3: "length demo_m3 = 3"
    by (simp_all add: demo_m1_def demo_m2_def demo_m3_def)
  have c0: "loop_cond 3 init_state"
    by (simp add: loop_cond_def init_state_def maxRadiusKm_def)
  have c1: "loop_cond 3 \<lparr>matchingDonors = demo_m1, currentRadiusKm = 4, expandedToMax = False\<rparr>"
    by (simp add: loop_cond_def l1 maxRadiusKm_def)
  have c2: "loop_cond 3 \<lparr>matchingDonors = demo_m2, currentRadiusKm = 6, expandedToMax = False\<rparr>"
    by (simp add: loop_cond_def l2 maxRadiusKm_def)
  have c3: "\<not> loop_cond 3 \<lparr>matchingDonors = demo_m3, currentRadiusKm = 6, expandedToMax = False\<rparr>"
    by (simp add: loop_cond_def l3)
  show ?thesis
    apply (subst search_trace.simps)
    apply (simp only: c0 if_True demo_pass1 sum.case)
    apply (subst search_trace.simps)
    apply (simp only: c1 if_True demo_pass2 sum.case)
    apply (subst search_trace.simps)
    apply (simp only: c2 if_True demo_pass3 sum.case)
    apply (subst search_trace.simps)
    apply (simp only: c3 if_False)
    apply (simp add: init_state_def)
    done
qed

lemma demo_trace_std:
  "search_trace demo_world (0, 0) (standardize demo_world [JStr ''O+'', JStr ''o- '']) 3 init_state =
     [(2, Inr \<lparr>matchingDonors = demo_m1, currentRadiusKm = 4, expandedToMax = False\<rparr>),
      (4, Inr \<lparr>matchingDonors = demo_m2, currentRadiusKm = 6, expandedToMax = False\<rparr>),
      (6, Inr \<lparr>matchingDonors = demo_m3, currentRadiusKm = 6, expandedToMax = False\<rparr>)]"
  by (simp only: demo_standardize demo_trace)

lemma demo_find:
  "findMatchingDonors demo_world (0, 0) [JStr ''O+'', JStr ''o- ''] 3
     = Inr \<lparr>matchingDonors = demo_m3, currentRadiusKm = 6, expandedToMax = False\<rparr>"
  by (simp add: findMatchingDonors_def search_loop_trace demo_trace_std)

section \<open>The search: the claims\<close>

text \<open>
  Claim C3 (exact-distance invariant). At every radius step of the search, every donor in
  the accepted set has a geopoint whose distance to the search center, as
  \<open>geofire.distanceBetween\<close> gives it, is at most the radius that the step examines.
  The world \<open>w\<close> is arbitrary: this holds whatever the geohash range queries return.
\<close>

theorem accepted_within_examined_radius:
  assumes "(r, Inr s') \<in> set (search_trace w center (standardize w requestedGroups) target init_state)"
    and "(docId, a) \<in> set (matchingDonors s')"
  shows "\<exists>gp. geo a = Some gp \<and> distanceBetween w gp center \<le> real r"
proof -
  let ?P = "\<lambda>m::(string \<times> matched) list. \<forall>(k, a) \<in> set m. \<exists>gp. geo a = Some gp \<and> distanceBetween w gp center \<le> real r"
  have "?P (matchingDonors s')"
  proof (rule search_trace_rule[where P = ?P, OF assms(1)])
    show "?P (matchingDonors init_state)" by (simp add: init_state_def)
  next
    fix m :: "(string \<times> matched) list" and docId a \<rho>
    assume "?P m" "\<rho> \<le> r" "admitted w center (standardize w requestedGroups) \<rho> a"
    then show "?P (m @ [(docId, a)])"
      by (fastforce simp: admitted_def)
  qed
  with assms(2) show ?thesis by blast
qed

theorem accepted_within_examined_radius_witness:
  "(4, Inr \<lparr>matchingDonors = demo_m2, currentRadiusKm = 6, expandedToMax = False\<rparr>)
     \<in> set (search_trace demo_world (0, 0) (standardize demo_world [JStr ''O+'', JStr ''o- '']) 3 init_state)
   \<and> (''d2'', matched_of (demo_donor 3 '' o-'' ''u2'') (demo_user ''u2''))
        \<in> set (matchingDonors \<lparr>matchingDonors = demo_m2, currentRadiusKm = 6, expandedToMax = False\<rparr>)
   \<and> (\<exists>gp. geo (matched_of (demo_donor 3 '' o-'' ''u2'') (demo_user ''u2'')) = Some gp
           \<and> distanceBetween demo_world gp (0, 0) \<le> real 4)"
  using accepted_within_examined_radius[of 4
          "\<lparr>matchingDonors = demo_m2, currentRadiusKm = 6, expandedToMax = False\<rparr>"
          demo_world "(0, 0)" "[JStr ''O+'', JStr ''o- '']" 3 "''d2''"
          "matched_of (demo_donor 3 '' o-'' ''u2'') (demo_user ''u2'')"]
  by (simp add: demo_trace_std demo_m2_def)

text \<open>
  Claim C4 (monotonic accumulation). Of two radius steps of one search, the later one
  examines a larger radius (larger by the step of 2 when they are consecutive) and its
  accepted map is the earlier one with entries appended: no accepted donor is removed by a
  later step, and no document id occurs twice in an accepted map.
\<close>

theorem accepted_set_only_grows:
  assumes "i < j" and "j < length (search_trace w center (standardize w requestedGroups) target init_state)"
    and "search_trace w center (standardize w requestedGroups) target init_state ! i = (r1, Inr s1)"
    and "search_trace w center (standardize w requestedGroups) target init_state ! j = (r2, Inr s2)"
  shows "r1 < r2 \<and> (j = Suc i \<longrightarrow> r2 = r1 + 2)
       \<and> set (matchingDonors s1) \<subseteq> set (matchingDonors s2)
       \<and> (\<exists>new. matchingDonors s2 = matchingDonors s1 @ new)
       \<and> distinct (map fst (matchingDonors s1)) \<and> distinct (map fst (matchingDonors s2))"
proof -
  let ?std = "standardize w requestedGroups"
  let ?T = "search_trace w center ?std target init_state"
  from assms(1,2) have i: "i < length ?T" by simp
  from search_trace_nth[OF i assms(3)] obtain s0 where
    dr: "drop (Suc i) ?T = search_trace w center ?std target s1"
    and r1: "r1 = currentRadiusKm s0" and c0: "loop_cond target s0"
    and p0: "search_pass w center ?std target s0 = Inr s1"
    by blast
  have nth: "search_trace w center ?std target s1 ! (j - Suc i) = (r2, Inr s2)"
    and len: "j - Suc i < length (search_trace w center ?std target s1)"
    using assms(1,2,4) by (simp_all flip: dr)
  then have mem: "(r2, Inr s2) \<in> set (search_trace w center ?std target s1)"
    by (metis nth_mem)
  from len have c1: "loop_cond target s1"
    by (simp add: search_trace.simps[of w center ?std target s1] split: if_splits)
  then have rad: "currentRadiusKm s1 = r1 + 2"
    using search_pass_radius(1)[OF p0] by (simp add: loop_cond_def r1)
  have lt: "r1 < r2"
    using search_trace_radius_le[OF mem] rad by simp
  have consec: "r2 = r1 + 2" if "j = Suc i"
  proof -
    from that nth have "search_trace w center ?std target s1 ! 0 = (r2, Inr s2)" by simp
    then show ?thesis
      using c1 rad
      by (cases "search_pass w center ?std target s1")
         (simp_all add: search_trace.simps[of w center ?std target s1])
  qed
  from search_trace_prefix[OF mem] obtain new where
    new: "matchingDonors s2 = matchingDonors s1 @ new" by blast
  have m1: "(r1, Inr s1) \<in> set ?T" using i assms(3) by (metis nth_mem)
  have m2: "(r2, Inr s2) \<in> set ?T" using assms(2,4) by (metis nth_mem)
  have d1: "distinct (map fst (matchingDonors s1))"
    by (rule search_trace_distinct[OF m1]) (simp add: init_state_def)
  have d2: "distinct (map fst (matchingDonors s2))"
    by (rule search_trace_distinct[OF m2]) (simp add: init_state_def)
  from lt consec new d1 d2 show ?thesis by auto
qed

theorem accepted_set_only_grows_witness:
  "(0::nat) < 1
   \<and> 1 < length (search_trace demo_world (0, 0) (standardize demo_world [JStr ''O+'', JStr ''o- '']) 3 init_state)
   \<and> search_trace demo_world (0, 0) (standardize demo_world [JStr ''O+'', JStr ''o- '']) 3 init_state ! 0
       = (2, Inr \<lparr>matchingDonors = demo_m1, currentRadiusKm = 4, expandedToMax = False\<rparr>)
   \<and> search_trace demo_world (0, 0) (standardize demo_world [JStr ''O+'', JStr ''o- '']) 3 init_state ! 1
       = (4, Inr \<lparr>matchingDonors = demo_m2, currentRadiusKm = 6, expandedToMax = False\<rparr>)
   \<and> set demo_m1 \<subseteq> set demo_m2 \<and> distinct (map fst demo_m2)"
  using accepted_set_only_grows[of 0 1 demo_world "(0, 0)" "[JStr ''O+'', JStr ''o- '']" 3 2
          "\<lparr>matchingDonors = demo_m1, currentRadiusKm = 4, expandedToMax = False\<rparr>" 4
          "\<lparr>matchingDonors = demo_m2, currentRadiusKm = 6, expandedToMax = False\<rparr>"]
  by (simp add: demo_trace_std)

text \<open>
  Claim C5 (termination). The search (start radius 2, step 2, ceiling 50) begins at most
  25 = (50 - 2) / 2 + 1 iterations, whatever the store answers. When it returns fewer donors
  than the target it has passed the ceiling: the flag \<open>expandedToMax\<close> is set and the
  radius is 52. When no document that the range queries return up to the ceiling is
  eligible (and the target is positive, as \<open>targetDonorCount\<close> always is), it returns the
  empty map with the flag set.
\<close>

theorem search_halts_within_25_iterations:
  "length (search_trace w center (standardize w requestedGroups) target init_state) \<le> 25
   \<and> (\<forall>res. findMatchingDonors w center requestedGroups target = Inr res
          \<and> real (length (matchingDonors res)) < target
        \<longrightarrow> expandedToMax res \<and> currentRadiusKm res = 52)
   \<and> (0 < target \<and> nobody_eligible w center (standardize w requestedGroups)
        \<longrightarrow> findMatchingDonors w center requestedGroups target
            = Inr \<lparr>matchingDonors = [], currentRadiusKm = 52, expandedToMax = True\<rparr>)"
proof (intro conjI allI impI)
  show "length (search_trace w center (standardize w requestedGroups) target init_state) \<le> 25"
    using search_trace_length[of w center "standardize w requestedGroups" target init_state]
    by (simp add: init_state_def)
next
  fix res
  assume a: "findMatchingDonors w center requestedGroups target = Inr res
             \<and> real (length (matchingDonors res)) < target"
  have inv: "radius_inv init_state" by (simp add: radius_inv_def init_state_def)
  from a have "search_loop w center (standardize w requestedGroups) target init_state = Inr res"
    by (simp add: findMatchingDonors_def)
  from search_loop_exit[OF this inv] have "radius_inv res \<and> \<not> loop_cond target res" .
  with a have "radius_inv res" "50 < currentRadiusKm res"
    by (simp_all add: loop_cond_def maxRadiusKm_def)
  then have f: "even (currentRadiusKm res)" "currentRadiusKm res \<le> 52"
      "expandedToMax res" "50 < currentRadiusKm res"
    by (simp_all add: radius_inv_def)
  from f(3) show "expandedToMax res" .
  from f(1,2,4) show "currentRadiusKm res = 52" by presburger
next
  assume "0 < target \<and> nobody_eligible w center (standardize w requestedGroups)"
  then show "findMatchingDonors w center requestedGroups target
            = Inr \<lparr>matchingDonors = [], currentRadiusKm = 52, expandedToMax = True\<rparr>"
    unfolding findMatchingDonors_def
    by (intro search_loop_nobody) (simp_all add: init_state_def)
qed

theorem search_halts_within_25_iterations_witness:
  "0 < (3::real) \<and> nobody_eligible nobody_world (0, 0) (standardize nobody_world [JStr ''o+ ''])
   \<and> findMatchingDonors nobody_world (0, 0) [JStr ''o+ ''] 3
        = Inr \<lparr>matchingDonors = [], currentRadiusKm = 52, expandedToMax = True\<rparr>
   \<and> length (search_trace nobody_world (0, 0) (standardize nobody_world [JStr ''o+ '']) 3 init_state) \<le> 25"
proof -
  have "nobody_eligible nobody_world (0, 0) (standardize nobody_world [JStr ''o+ ''])"
    by (simp add: nobody_eligible_def nobody_world_def demo_world_def demo_trim_def demo_toUpperCase_def eligible_def
          demo_donor_def standardize_def donorBloodGroup_def or_default_def maxRadiusKm_def)
  then show ?thesis
    using search_halts_within_25_iterations[of nobody_world "(0, 0)" "[JStr ''o+ '']" 3]
    by simp
qed

text \<open>
  Claim C6 (eligibility exclusivity). At every radius step, the trimmed and uppercased
  blood group of every donor in the accepted set is a member of the standardized requested
  groups; so a donor whose normalized blood group is not requested is in no accepted set.
\<close>

theorem accepted_blood_group_requested:
  assumes "(r, Inr s') \<in> set (search_trace w center (standardize w requestedGroups) target init_state)"
    and "(docId, a) \<in> set (matchingDonors s')"
  shows "JStr (str_toUpperCase w (str_trim w (bloodGroup a))) \<in> set (standardize w requestedGroups)"
proof -
  let ?P = "\<lambda>m::(string \<times> matched) list. \<forall>(k, a) \<in> set m. JStr (donorBloodGroup w a) \<in> set (standardize w requestedGroups)"
  have "?P (matchingDonors s')"
  proof (rule search_trace_rule[where P = ?P, OF assms(1)])
    show "?P (matchingDonors init_state)" by (simp add: init_state_def)
  next
    fix m :: "(string \<times> matched) list" and docId a \<rho>
    assume "?P m" "admitted w center (standardize w requestedGroups) \<rho> a"
    then show "?P (m @ [(docId, a)])"
      by (simp add: admitted_def)
  qed
  with assms(2) show ?thesis by (auto simp: donorBloodGroup_def or_default_def)
qed

theorem accepted_blood_group_requested_witness:
  "(4, Inr \<lparr>matchingDonors = demo_m2, currentRadiusKm = 6, expandedToMax = False\<rparr>)
     \<in> set (search_trace demo_world (0, 0) (standardize demo_world [JStr ''O+'', JStr ''o- '']) 3 init_state)
   \<and> (''d2'', matched_of (demo_donor 3 '' o-'' ''u2'') (demo_user ''u2''))
        \<in> set (matchingDonors \<lparr>matchingDonors = demo_m2, currentRadiusKm = 6, expandedToMax = False\<rparr>)
   \<and> bloodGroup (matched_of (demo_donor 3 '' o-'' ''u2'') (demo_user ''u2'')) = '' o-''
   \<and> JStr (str_toUpperCase demo_world (str_trim demo_world '' o-''))
        \<in> set (standardize demo_world [JStr ''O+'', JStr ''o- ''])"
  using accepted_blood_group_requested[of 4
          "\<lparr>matchingDonors = demo_m2, currentRadiusKm = 6, expandedToMax = False\<rparr>"
          demo_world "(0, 0)" "[JStr ''O+'', JStr ''o- '']" 3 "''d2''"
          "matched_of (demo_donor 3 '' o-'' ''u2'') (demo_user ''u2'')"]
  by (simp add: demo_trace_std demo_m2_def matched_of_def demo_donor_def)

section \<open>The agent's filter\<close>

text \<open>
  The filter fails open on a rejected call, on a status other than 200, on an empty reply
  and on a parsed value that is not an array: the map is returned as it is.
\<close>

lemma adk_filter_fail_open:
  assumes "axios_post w \<lparr>user_id = requestedBy requestData, session_id = requestedBy requestData,
              message = ''Filter donors for blood request'',
              donor_ids = map (\<lambda>(docId, d). uid d) m,
              ctx_requestId = requestId, ctx_providerId = providerId,
              bloodGroups = req_bloodGroup requestData,
              unitsNeeded = unitsNeeded_of requestData\<rparr> = outcome"
    and "outcome = AxiosRejected
       \<or> (\<exists>status reply. outcome = AxiosResponse status reply
             \<and> (status \<noteq> 200 \<or> reply = []
                 \<or> (\<exists>v. JSON_parse w reply = Some v \<and> (\<forall>ids. v \<noteq> JArr ids))))"
  shows "adk_filter w requestData providerId requestId m = m"
  using assms by (auto simp: adk_filter_def split: json.splits)

text \<open>
Whatever the agent answers, every donor left by the filter was in the map before it.
\<close>

lemma refill_subset:
  "snd ` set (refill ids m acc) \<subseteq> snd ` set acc \<union> snd ` set m"
proof (induction m arbitrary: acc)
  case Nil
  then show ?case by simp
next
  case (Cons p m)
  obtain k d where p: "p = (k, d)" by (cases p)
  let ?acc = "if JStr (uid d) \<in> set ids then Map_set acc (uid d) d else acc"
  have "snd ` set ?acc \<subseteq> insert d (snd ` set acc)"
    using Map_set_values[of acc "uid d" d] by auto
  moreover have "snd ` set (refill ids m ?acc) \<subseteq> snd ` set ?acc \<union> snd ` set m"
    by (rule Cons)
  ultimately have "snd ` set (refill ids m ?acc) \<subseteq> snd ` set acc \<union> insert d (snd ` set m)"
    by blast
  then show ?case by (simp add: p)
qed

lemma adk_filter_subset:
  "snd ` set (adk_filter w requestData providerId requestId m) \<subseteq> snd ` set m"
  using refill_subset[of _ m "[]"]
  by (auto simp: adk_filter_def split: axios_result.splits option.splits json.splits)

lemma refill_length: "length (refill ids m acc) \<le> length acc + length m"
proof (induction m arbitrary: acc)
  case Nil
  then show ?case by simp
next
  case (Cons p m)
  obtain k d where p: "p = (k, d)" by (cases p)
  have "length (Map_set acc (uid d) d) \<le> Suc (length acc)"
    by (induction acc) auto
  then show ?case
    using Cons[of acc] Cons[of "Map_set acc (uid d) d"] by (auto simp: p)
qed

lemma adk_filter_length:
  "length (adk_filter w requestData providerId requestId m) \<le> length m"
  using refill_length[of _ m "[]"]
  by (auto simp: adk_filter_def split: axios_result.splits option.splits json.splits)

text \<open>
  Claim C2 (filter fail-open). The claim fails on a reply that \<open>JSON.parse\<close> rejects:
  the code then takes the original uid list as the agent's list and still refills the map,
  keyed by \<open>uid\<close>. Here the two accepted documents of user \<open>u1\<close> are left as a single
  entry under the key \<open>u1\<close>, where the claim has the candidate set unchanged.
\<close>

theorem unparseable_reply_changes_candidates:
  "adk_filter chatty_world demo_request ''p1'' ''r1''
      [(''u1_daytime'', twin_day), (''u1_nighttime'', twin_night)]
     = [(''u1'', twin_night)]"
  by (simp add: adk_filter_def chatty_world_def demo_world_def demo_trim_def demo_toUpperCase_def twin_day_def twin_night_def)

text \<open>
  Claim C10 (target bound), as amended. The target \<open>clamp(units, 3, 5)\<close> lies between 3 and
  5 and is never rounded; it is a whole number when the units are. At every radius step and
  in the result of the search the accepted map holds at most as many entries as the target
  rounded up to the next whole number, hence at most 5, and so does the map that the filter
  leaves.
\<close>

theorem accepted_count_at_most_target:
  "3 \<le> targetDonorCount units \<and> targetDonorCount units \<le> 5
   \<and> (units \<in> \<int> \<longrightarrow> real_of_int \<lceil>targetDonorCount units\<rceil> = targetDonorCount units)
   \<and> (\<forall>r s'. (r, Inr s') \<in> set (search_trace w center (standardize w requestedGroups)
                                    (targetDonorCount units) init_state)
        \<longrightarrow> int (length (matchingDonors s')) \<le> \<lceil>targetDonorCount units\<rceil>
          \<and> length (matchingDonors s') \<le> 5)
   \<and> (\<forall>found. findMatchingDonors w center requestedGroups (targetDonorCount units) = Inr found
        \<longrightarrow> int (length (matchingDonors found)) \<le> \<lceil>targetDonorCount units\<rceil>
          \<and> length (matchingDonors found) \<le> 5
          \<and> length (adk_filter w requestData providerId requestId (matchingDonors found)) \<le> 5)"
proof -
  have t3: "3 \<le> targetDonorCount units" and t5: "targetDonorCount units \<le> 5"
    by (simp_all add: targetDonorCount_def)
  from t3 t5 have c3: "3 \<le> \<lceil>targetDonorCount units\<rceil>" and c5: "\<lceil>targetDonorCount units\<rceil> \<le> 5"
    by (linarith, simp add: ceiling_le_iff)
  have whole: "real_of_int \<lceil>targetDonorCount units\<rceil> = targetDonorCount units" if "units \<in> \<int>"
  proof -
    from that obtain k where "units = of_int k" by (auto elim: Ints_cases)
    then have "targetDonorCount units = of_int (min (max k 3) 5)"
      by (simp add: targetDonorCount_def min_def max_def)
    then show ?thesis by simp
  qed
  have step: "int (length (matchingDonors s')) \<le> \<lceil>targetDonorCount units\<rceil>
              \<and> length (matchingDonors s') \<le> 5"
    if "(r, Inr s') \<in> set (search_trace w center (standardize w requestedGroups)
                             (targetDonorCount units) init_state)" for r s'
    using search_trace_size[OF that] c5 by linarith
  have result: "int (length (matchingDonors found)) \<le> \<lceil>targetDonorCount units\<rceil>
              \<and> length (matchingDonors found) \<le> 5
              \<and> length (adk_filter w requestData providerId requestId (matchingDonors found)) \<le> 5"
    if a: "findMatchingDonors w center requestedGroups (targetDonorCount units) = Inr found"
    for found
  proof -
    from findMatchingDonors_result[OF a]
    have le: "int (length (matchingDonors found)) \<le> \<lceil>targetDonorCount units\<rceil>"
    proof (elim disjE conjE exE)
      assume "found = init_state"
      with c3 show ?thesis by (simp add: init_state_def)
    next
      fix r
      assume "(r, Inr found) \<in> set (search_trace w center (standardize w requestedGroups)
                                     (targetDonorCount units) init_state)"
      then show ?thesis by (rule search_trace_size)
    qed
    with c5 have 5: "length (matchingDonors found) \<le> 5" by linarith
    with adk_filter_length[of w requestData providerId requestId "matchingDonors found"]
    have "length (adk_filter w requestData providerId requestId (matchingDonors found)) \<le> 5"
      by simp
    with le 5 show ?thesis by simp
  qed
  from t3 t5 whole step result show ?thesis by blast
qed

theorem accepted_count_at_most_target_witness:
  "(2::real) \<in> \<int> \<and> targetDonorCount 2 = 3
   \<and> findMatchingDonors demo_world (0, 0) [JStr ''O+'', JStr ''o- ''] (targetDonorCount 2)
       = Inr \<lparr>matchingDonors = demo_m3, currentRadiusKm = 6, expandedToMax = False\<rparr>
   \<and> int (length demo_m3) \<le> \<lceil>targetDonorCount 2\<rceil>
   \<and> length demo_m3 \<le> 5"
proof -
  have t: "targetDonorCount 2 = 3" by (simp add: targetDonorCount_def)
  from accepted_count_at_most_target[of 2 demo_world "(0, 0)" "[JStr ''O+'', JStr ''o- '']"]
  show ?thesis by (simp add: t demo_find)
qed

text \<open>
  Claim C10 as stated fails: for four and a half units the target is 4.5, the loop goes on
  while the map holds fewer than 4.5 entries, and the search returns five donors.
\<close>

lemma crowded_pass:
  "search_pass crowded_world (0, 0) [JStr ''O+'', JStr ''O-''] (9/2) init_state
     = Inr \<lparr>matchingDonors = crowded_m5, currentRadiusKm = 2, expandedToMax = False\<rparr>"
  by (simp add: search_pass_def crowded_world_def crowded_docs_def crowded_m5_def
        demo_world_def demo_trim_def demo_toUpperCase_def demo_donor_def demo_user_def
        init_state_def matched_of_def donorBloodGroup_def or_default_def
        stepKm_def maxRadiusKm_def)

theorem fractional_target_is_exceeded:
  "targetDonorCount (unitsNeeded_of fractional_request) = 9/2
   \<and> findMatchingDonors crowded_world (0, 0) (req_bloodGroup fractional_request)
         (targetDonorCount (unitsNeeded_of fractional_request))
       = Inr \<lparr>matchingDonors = crowded_m5, currentRadiusKm = 2, expandedToMax = False\<rparr>
   \<and> length crowded_m5 = 5"
proof -
  have t: "targetDonorCount (unitsNeeded_of fractional_request) = 9/2"
    by (simp add: targetDonorCount_def unitsNeeded_of_def fractional_request_def demo_request_def)
  have g: "standardize crowded_world (req_bloodGroup fractional_request) = [JStr ''O+'', JStr ''O-'']"
    by (simp add: standardize_def crowded_world_def demo_world_def demo_trim_def
          demo_toUpperCase_def fractional_request_def demo_request_def)
  have l: "length crowded_m5 = 5" by (simp add: crowded_m5_def)
  have c0: "loop_cond (9/2) init_state"
    by (simp add: loop_cond_def init_state_def maxRadiusKm_def)
  have c1: "\<not> loop_cond (9/2) \<lparr>matchingDonors = crowded_m5, currentRadiusKm = 2, expandedToMax = False\<rparr>"
    by (simp add: loop_cond_def l)
  have "search_loop crowded_world (0, 0) [JStr ''O+'', JStr ''O-''] (9/2) init_state
          = Inr \<lparr>matchingDonors = crowded_m5, currentRadiusKm = 2, expandedToMax = False\<rparr>"
    apply (subst search_loop.simps)
    apply (simp only: c0 if_True crowded_pass sum.case)
    apply (subst search_loop.simps)
    apply (simp only: c1 if_False)
    done
  then show ?thesis by (simp add: findMatchingDonors_def t g l)
qed

section \<open>The creation pass\<close>

text \<open>
  The first identifier that the \<open>messageContent\<close> literal reads, \<open>after\<close>, is bound
  nowhere in \<open>onBloodRequestCreated\<close>.
\<close>

lemma messageContent_throws:
  "read_all created_scope messageContent_reads = Some (ReferenceError ''after'')"
  by (simp add: created_scope_def messageContent_reads_def)

text \<open>
  Hence the handler issues nothing but, at most, the notice to the requester that no donor
  was found.
\<close>

lemma created_never_records:
  "fst (onBloodRequestCreated w requestData providerId requestId) = []
   \<or> (\<exists>tokens n. fst (onBloodRequestCreated w requestData providerId requestId)
         = [SendEachForMulticast tokens requestId (NO_DONORS_FOUND n)])"
  by (auto simp: onBloodRequestCreated_def notify_and_record_def messageContent_throws
        sendNoDonorNotification_def
      split: option.splits sum.splits)

lemma demo_filter_rejected: "adk_filter demo_world requestData providerId requestId m = m"
  by (simp add: adk_filter_def demo_world_def demo_trim_def demo_toUpperCase_def)

lemma demo_provider_doc: "providersDoc demo_world ''p1'' = Some (Some demo_provider)"
  by (simp add: demo_world_def demo_trim_def demo_toUpperCase_def)

text \<open>
  Claim C1 (creation pass). The claim fails on the code: in the example three donors
  survive the search and the filter, and the handler ends in the \<open>ReferenceError\<close> that its
  \<open>catch\<close> logs, with no update of \<open>foundDonors\<close>, no message record and no multicast.
\<close>

theorem survivors_are_never_notified:
  "onBloodRequestCreated demo_world demo_request ''p1'' ''r1'' = ([], Some (ReferenceError ''after''))"
  by (simp add: onBloodRequestCreated_def demo_provider_doc demo_provider_def demo_filter_rejected
        unitsNeeded_of_def demo_request_def targetDonorCount_def demo_find
        notify_and_record_def demo_m3_def demo_m2_def demo_m1_def messageContent_throws)

section \<open>The confirmation pass\<close>

text \<open>
  Claim C7 (confirmation idempotence). An update whose confirmed-donor list holds no id
  that the list before the update lacks (a redelivered event among them), or in which one
  of the two lists is not an array, makes the handler return at once: it issues no write
  and no send, and it fails with no error.
\<close>

theorem unchanged_confirmations_do_nothing:
  assumes "\<forall>bm am. matchedDonors before = Some bm \<and> matchedDonors after = Some am
             \<longrightarrow> set am \<subseteq> set bm"
  shows "onMatchedDonorAdded w before after providerId requestId = ([], None)"
proof (cases "matchedDonors before")
  case None
  then show ?thesis by (simp add: onMatchedDonorAdded_def)
next
  case (Some bm)
  show ?thesis
  proof (cases "matchedDonors after")
    case None
    with Some show ?thesis by (simp add: onMatchedDonorAdded_def)
  next
    case am: (Some am)
    with Some assms have "set am \<subseteq> set bm" by simp
    then have "newDonors bm am = []"
      by (auto simp: newDonors_def filter_empty_conv)
    with Some am show ?thesis by (simp add: onMatchedDonorAdded_def)
  qed
qed

theorem unchanged_confirmations_do_nothing_witness:
  "set [''u1'', ''u2''] \<subseteq> set [''u2'', ''u1'', ''u3'']
   \<and> onMatchedDonorAdded demo_world
        (demo_request\<lparr>matchedDonors := Some [''u2'', ''u1'', ''u3'']\<rparr>)
        (demo_request\<lparr>matchedDonors := Some [''u1'', ''u2'']\<rparr>) ''p1'' ''r1'' = ([], None)"
  using unchanged_confirmations_do_nothing[of
          "demo_request\<lparr>matchedDonors := Some [''u2'', ''u1'', ''u3'']\<rparr>"
          "demo_request\<lparr>matchedDonors := Some [''u1'', ''u2'']\<rparr>" demo_world "''p1''" "''r1''"]
  by (simp add: demo_request_def)










lemma demo_confirmation:
  "onMatchedDonorAdded demo_world confirm_before confirm_after ''p1'' ''r1''
     = ([donor_matched demo_world ''r1'' ''token-requester'' ''u2'' (demo_user ''u2'') 12,
         MatchSet ''u2'' ''r1'' ''matched'' ''GH Lagos'', DonorMessageAdd ''u2''], None)"
  by (simp add: onMatchedDonorAdded_def confirm_before_def confirm_after_def demo_request_def
        newDonors_def demo_world_def demo_trim_def demo_toUpperCase_def demo_user_def await_def providerName_of_def
        demo_provider_def or_default_def donor_matched_def donor_matched_body_def)

lemma demo_notice_text:
  "donor_matched demo_world ''r1'' ''token-requester'' ''u2'' (demo_user ''u2'') 12
     = SendEachForMulticast [''token-requester''] ''r1''
         (DONOR_MATCHED ''u2'' (''Name: Ada Obi'' @ [CHR 0x0A] @ ''Area: Ikeja'' @ [CHR 0x0A]
                                @ ''Kindly prepare for donation.''))"
  "donor_matched demo_world ''r1'' ''token-requester'' ''u2'' (demo_user ''u2'') 18
     = SendEachForMulticast [''token-requester''] ''r1''
         (DONOR_MATCHED ''u2'' (''Name: Ada Obi'' @ [CHR 0x0A] @ ''Area: Yaba'' @ [CHR 0x0A]
                                @ ''Kindly prepare for donation.''))"
  by (simp_all add: donor_matched_def demo_world_def demo_trim_def demo_toUpperCase_def demo_user_def or_default_def)



section \<open>The cancellation pass\<close>

lemma get_all_tokens:
  "get_all w ids = Some docs \<Longrightarrow> tokens_of docs = recorded_tokens w ids"
proof (induction ids arbitrary: docs)
  case Nil
  then show ?case by (simp add: tokens_of_def recorded_tokens_def)
next
  case (Cons u ids)
  from Cons.prems obtain doc rest where
    u: "usersDoc w u = Some doc" and rest: "get_all w ids = Some rest" and docs: "docs = doc # rest"
    by (auto split: option.splits)
  from Cons.IH[OF rest] have "tokens_of rest = recorded_tokens w ids" .
  then show ?case
    using u by (cases doc) (simp_all add: docs tokens_of_def recorded_tokens_def)
qed

lemma get_all_total:
  "(\<forall>u \<in> set ids. usersDoc w u \<noteq> None) \<Longrightarrow> \<exists>docs. get_all w ids = Some docs"
  by (induction ids) (auto split: option.splits)

lemma deleted_effects:
  "fst (onBloodRequestDeleted w before after requestId) = []
   \<or> (\<exists>requestData ids. before = Some requestData \<and> after = None
         \<and> foundDonors requestData = Some ids \<and> ids \<noteq> [] \<and> recorded_tokens w ids \<noteq> []
         \<and> fst (onBloodRequestDeleted w before after requestId)
             = [SendEachForMulticast (recorded_tokens w ids) requestId REQUEST_CANCELLED])"
proof (cases after)
  case (Some a)
  then show ?thesis by (simp add: onBloodRequestDeleted_def)
next
  case None
  show ?thesis
  proof (cases before)
    case nb: None
    with None show ?thesis by (simp add: onBloodRequestDeleted_def)
  next
    case (Some requestData)
    show ?thesis
    proof (cases "foundDonors requestData")
      case nf: None
      with None Some show ?thesis by (simp add: onBloodRequestDeleted_def)
    next
      case ids: (Some ids)
      show ?thesis
      proof (cases "get_all w ids")
        case ng: None
        with None Some ids show ?thesis by (simp add: onBloodRequestDeleted_def)
      next
        case docs: (Some docs)
        from get_all_tokens[OF docs] None Some ids docs show ?thesis
          by (auto simp: onBloodRequestDeleted_def await_def)
      qed
    qed
  qed
qed

text \<open>
  Claim C8 (cancellation), as amended. When a request is deleted with an empty or absent
  \<open>foundDonors\<close> list the handler does nothing. When the list is recorded and the profile
  reads are answered, the handler issues one cancellation multicast to the tokens of the
  recorded donors whose profile exists and holds a token, in the order of the list, and
  none when there is no such token. In every case it issues nothing else: no token of a
  donor outside the recorded list is contacted, and a write that is not a deletion
  contacts nobody.
\<close>

theorem cancellation_reaches_recorded_tokens:
  "(foundDonors requestData = None \<or> foundDonors requestData = Some []
      \<longrightarrow> onBloodRequestDeleted w (Some requestData) None requestId = ([], None))
   \<and> (foundDonors requestData = Some ids \<and> (\<forall>u \<in> set ids. usersDoc w u \<noteq> None)
      \<longrightarrow> fst (onBloodRequestDeleted w (Some requestData) None requestId)
          = (if recorded_tokens w ids = [] then []
             else [SendEachForMulticast (recorded_tokens w ids) requestId REQUEST_CANCELLED]))
   \<and> set (recorded_tokens w ids)
       = {t. t \<noteq> [] \<and> (\<exists>u \<in> set ids. \<exists>p. usersDoc w u = Some (Some p) \<and> fcmToken p = t)}
   \<and> (fst (onBloodRequestDeleted w before after requestId) = []
       \<or> (\<exists>rd recorded. before = Some rd \<and> after = None \<and> foundDonors rd = Some recorded
            \<and> fst (onBloodRequestDeleted w before after requestId)
                = [SendEachForMulticast (recorded_tokens w recorded) requestId REQUEST_CANCELLED]))"
proof (intro conjI impI)
  assume "foundDonors requestData = None \<or> foundDonors requestData = Some []"
  then show "onBloodRequestDeleted w (Some requestData) None requestId = ([], None)"
    by (auto simp: onBloodRequestDeleted_def)
next
  assume a: "foundDonors requestData = Some ids \<and> (\<forall>u \<in> set ids. usersDoc w u \<noteq> None)"
  then obtain docs where docs: "get_all w ids = Some docs"
    using get_all_total by blast
  from get_all_tokens[OF docs] a docs
  show "fst (onBloodRequestDeleted w (Some requestData) None requestId)
          = (if recorded_tokens w ids = [] then []
             else [SendEachForMulticast (recorded_tokens w ids) requestId REQUEST_CANCELLED])"
    by (cases ids) (auto simp: onBloodRequestDeleted_def await_def recorded_tokens_def)
next
  show "set (recorded_tokens w ids)
       = {t. t \<noteq> [] \<and> (\<exists>u \<in> set ids. \<exists>p. usersDoc w u = Some (Some p) \<and> fcmToken p = t)}"
    by (auto simp: recorded_tokens_def split: option.splits if_splits) (metis+)
next
  show "fst (onBloodRequestDeleted w before after requestId) = []
       \<or> (\<exists>rd recorded. before = Some rd \<and> after = None \<and> foundDonors rd = Some recorded
            \<and> fst (onBloodRequestDeleted w before after requestId)
                = [SendEachForMulticast (recorded_tokens w recorded) requestId REQUEST_CANCELLED])"
    using deleted_effects[of w before after requestId] by blast
qed

theorem cancellation_reaches_recorded_tokens_witness:
  "foundDonors deleted_request = Some [''A'', ''B'', ''C'']
   \<and> usersDoc demo_world ''A'' \<noteq> None \<and> usersDoc demo_world ''B'' \<noteq> None
   \<and> usersDoc demo_world ''C'' \<noteq> None
   \<and> fst (onBloodRequestDeleted demo_world (Some deleted_request) None ''r1'')
       = [SendEachForMulticast [''token-A'', ''token-B'', ''token-C''] ''r1'' REQUEST_CANCELLED]"
  using cancellation_reaches_recorded_tokens[of deleted_request demo_world "''r1''"
          "[''A'', ''B'', ''C'']"]
  by (simp add: deleted_request_def demo_request_def demo_world_def demo_trim_def demo_toUpperCase_def demo_user_def
        recorded_tokens_def)

text \<open>
  Claim C8 as stated fails: \<open>B\<close> is in the recorded list but has no profile, and the
  notice goes to \<open>A\<close> and \<open>C\<close> only.
\<close>

theorem listed_donor_without_profile_is_skipped:
  "foundDonors deleted_request = Some [''A'', ''B'', ''C'']
   \<and> onBloodRequestDeleted lapsed_world (Some deleted_request) None ''r1''
       = ([SendEachForMulticast [''token-A'', ''token-C''] ''r1'' REQUEST_CANCELLED], None)"
  by (simp add: onBloodRequestDeleted_def deleted_request_def demo_request_def lapsed_world_def
        demo_world_def demo_trim_def demo_toUpperCase_def demo_user_def tokens_of_def await_def)

end
